theory Spec2Isabelle
  imports Main
begin

section \<open>JavaScript string operations used by the dashboard\<close>

text \<open>
  Strings are lists of characters. The dashboard only uses \<open>startsWith\<close>, \<open>endsWith\<close>,
  \<open>includes\<close>, \<open>split\<close>, \<open>replace\<close> with a string pattern (which replaces the first
  occurrence only) and \<open>toLowerCase\<close>. The first five are defined here. \<open>toLowerCase\<close> is the
  platform's Unicode-aware lower-casing, which is not code of the dashboard: the functions
  that call it take it as their first argument, named \<open>toLowerCase\<close>, and everything proved
  about them holds for every such function.
\<close>

definition startsWith :: "string \<Rightarrow> string \<Rightarrow> bool" where
  "startsWith s p = (take (length p) s = p)"

definition endsWith :: "string \<Rightarrow> string \<Rightarrow> bool" where
  "endsWith s p = (length p \<le> length s \<and> drop (length s - length p) s = p)"

fun includes_str :: "string \<Rightarrow> string \<Rightarrow> bool" where
  "includes_str [] sub = (sub = [])"
| "includes_str (c # cs) sub = (startsWith (c # cs) sub \<or> includes_str cs sub)"

fun split :: "string \<Rightarrow> char \<Rightarrow> string list" where
  "split [] sep = [[]]"
| "split (c # cs) sep =
     (if c = sep then [] # split cs sep
      else (let parts = split cs sep in (c # hd parts) # tl parts))"

fun replace :: "string \<Rightarrow> string \<Rightarrow> string \<Rightarrow> string" where
  "replace [] pat rep = (if pat = [] then rep else [])"
| "replace (c # cs) pat rep =
     (if startsWith (c # cs) pat then rep @ drop (length pat) (c # cs)
      else c # replace cs pat rep)"

text \<open>Decimal rendering of a non-negative number, as a template literal or
  \<open>textContent\<close> assignment renders it.\<close>

definition digit :: "nat \<Rightarrow> char" where
  "digit d = ''0123456789'' ! d"

fun show_nat :: "nat \<Rightarrow> string" where
  "show_nat n = (if n < 10 then [digit n] else show_nat (n div 10) @ [digit (n mod 10)])"

section \<open>The request layer: githubFetch\<close>

text \<open>
  A call either gets no response at all (\<open>fetch\<close> rejects) or a response with an HTTP status
  and a decoded JSON body. \<open>githubFetch\<close> throws when \<open>response.ok\<close> is false, that is when
  the status is outside 200..299. Thrown errors are values on the left of a sum.
\<close>

datatype error = ApiError nat | NetworkError

datatype 'a response = NoResponse | Response nat 'a

definition githubFetch :: "'a response \<Rightarrow> error + 'a" where
  "githubFetch r =
     (case r of
        NoResponse \<Rightarrow> Inl NetworkError
      | Response st body \<Rightarrow> if 200 \<le> st \<and> st \<le> 299 then Inr body else Inl (ApiError st))"

section \<open>Payloads of the hosting API\<close>

text \<open>
  Timestamps are the milliseconds since the epoch that \<open>new Date(dateString)\<close> yields.
  A field that may be null or absent is an option. Field names that several payloads share
  (\<open>name\<close>, \<open>html_url\<close>) carry the payload's name as a prefix.
\<close>

record status_record =
  status :: "string option"
  conclusion :: "string option"

record run = status_record +
  run_id :: nat
  run_name :: string
  display_title :: "string option"
  created_at :: int
  run_html_url :: string

record runs_page =
  total_count :: "nat option"
  workflow_runs :: "run list option"

record step = status_record +
  step_name :: string

record job = status_record +
  job_name :: string
  steps :: "step list option"

record entry =
  entry_type :: string
  entry_name :: string

record commit =
  sha :: string
  author_date :: int

record changed_file =
  filename :: string

record repo =
  repo_name :: string
  repo_html_url :: string
  updated_at :: int

record issue =
  issue_number :: nat

text \<open>
  The upstream data set, for the configured organisation: one response per endpoint the
  dashboard calls.
  \<^item> \<open>latest_runs repoName\<close>: \<open>/repos/org/repoName/actions/runs?per_page=1\<close>, the
    \<open>workflow_runs\<close> array of the payload;
  \<^item> \<open>transcript_runs n\<close>: \<open>.../workflows/process-transcript.yml/runs?per_page=n\<close>;
  \<^item> \<open>run_jobs id\<close>: \<open>.../actions/runs/id/jobs\<close>, the \<open>jobs\<close> field of the payload;
  \<^item> \<open>library_contents\<close> and \<open>library_dir name\<close>: the contents listings of the library;
  \<^item> \<open>library_commits\<close>: \<open>.../commits?per_page=10\<close>;
  \<^item> \<open>commit_details sha\<close>: \<open>.../commits/sha\<close>, the \<open>files\<close> field of the payload;
  \<^item> \<open>user_repos sorted\<close>: \<open>/users/org/repos?per_page=100\<close>, with \<open>&sort=updated\<close> when
    \<open>sorted\<close>;
  \<^item> \<open>repo_issues name\<close>: \<open>/repos/org/name/issues?state=open&per_page=1\<close>.
\<close>

record upstream =
  latest_runs :: "string \<Rightarrow> run list response"
  transcript_runs :: "nat \<Rightarrow> runs_page response"
  run_jobs :: "nat \<Rightarrow> job list option response"
  library_contents :: "entry list response"
  library_dir :: "string \<Rightarrow> entry list response"
  library_commits :: "commit list response"
  commit_details :: "string \<Rightarrow> changed_file list option response"
  user_repos :: "bool \<Rightarrow> repo list response"
  repo_issues :: "string \<Rightarrow> issue list response"

section \<open>View-models handed to the page\<close>

text \<open>
  Each section of the page receives markup built from a fixed template around a few
  values; the model keeps those values. One constructor stands for each of the fixed
  messages a section can show instead.
\<close>

record status_item =
  item_name :: string
  item_status :: string
  statusText :: string

datatype tree_node =
  Root string string string
| Child string string

datatype tree_html = NoJobDetails | Tree "tree_node list" | CouldNotLoad

record job_card =
  card_title :: string
  card_time :: string
  card_statusClass :: string
  card_statusText :: "string option"
  card_tree :: tree_html
  card_url :: string

datatype jobs_section = NoTranscriptJobs | Jobs "job_card list" | JobsError error

record artifact =
  name :: string
  category :: string
  path :: string
  date :: int

record artifact_item =
  shown_name :: string
  shown_age :: string
  shown_category :: string

datatype artifacts_section = NoArtifacts | Artifacts "artifact_item list" | ArtifactsError error

record project =
  project_name :: string
  fullName :: string
  projectType :: string
  project_status :: string
  url :: string
  updated :: int

record project_item =
  link_url :: string
  link_name :: string
  link_age :: string
  type_badge :: string
  status_badge :: string
  status_label :: string

datatype projects_section = NoLabProjects | Projects "project_item list" | ProjectsError error

datatype marker = Refreshing | LocaleString int

record page =
  system_status :: "status_item list"
  stat_transcripts :: string
  stat_artifacts :: string
  stat_projects :: string
  transcript_jobs :: jobs_section
  library_artifacts :: artifacts_section
  lab_projects :: projects_section
  last_updated :: marker

section \<open>The dashboard\<close>

definition REPOS :: "(string \<times> string) list" where
  "REPOS = [(''conduct'', ''Legato.Conduct''), (''library'', ''Legato.Library''),
            (''listen'', ''Legato.Listen'')]"

subsection \<open>timeAgo\<close>

text \<open>\<open>now\<close> is the clock reading \<open>new Date()\<close>; \<open>div\<close> on integers rounds down, as
  \<open>Math.floor\<close> does.\<close>

definition timeAgo :: "int \<Rightarrow> int \<Rightarrow> string" where
  "timeAgo now dateString =
     (let seconds = (now - dateString) div 1000 in
      if seconds < 60 then ''just now''
      else if seconds < 3600 then show_nat (nat (seconds div 60)) @ ''m ago''
      else if seconds < 86400 then show_nat (nat (seconds div 3600)) @ ''h ago''
      else show_nat (nat (seconds div 86400)) @ ''d ago'')"

subsection \<open>renderSystemStatus\<close>

text \<open>The classification of the latest run (the \<open>let status\<close> block); \<open>None\<close> is the
  undefined \<open>workflow_runs[0]\<close> of an empty list.\<close>

definition runStatus :: "'a status_record_scheme option \<Rightarrow> string \<times> string" where
  "runStatus latestRun =
     (case latestRun of
        None \<Rightarrow> (''success'', ''Operational'')
      | Some r \<Rightarrow>
          if status r = Some ''in_progress'' \<or> status r = Some ''queued''
          then (''loading'', ''Running'')
          else if conclusion r = Some ''failure'' then (''error'', ''Failed'')
          else if conclusion r = Some ''cancelled'' then (''warning'', ''Cancelled'')
          else (''success'', ''Operational''))"

definition first_run :: "run list \<Rightarrow> run option" where
  "first_run runs = (case runs of [] \<Rightarrow> None | r # _ \<Rightarrow> Some r)"

text \<open>The loop over \<open>Object.entries(REPOS)\<close>, with \<open>statuses\<close> as accumulator; the
  \<open>catch\<close> branch is the \<open>Inl\<close> case.\<close>

fun status_loop :: "upstream \<Rightarrow> (string \<times> string) list \<Rightarrow> status_item list \<Rightarrow> status_item list" where
  "status_loop up [] statuses = statuses"
| "status_loop up ((key, repoName) # rest) statuses =
     (case githubFetch (latest_runs up repoName) of
        Inr runs \<Rightarrow>
          (let latestRun = first_run runs;
               (st, txt) = runStatus latestRun
           in status_loop up rest
                (statuses @ [\<lparr>item_name = repoName, item_status = st, statusText = txt\<rparr>]))
      | Inl e \<Rightarrow>
          status_loop up rest
            (statuses @ [\<lparr>item_name = repoName, item_status = ''error'',
                          statusText = ''Unavailable''\<rparr>]))"

definition renderSystemStatus :: "upstream \<Rightarrow> page \<Rightarrow> page" where
  "renderSystemStatus up pg = pg\<lparr>system_status := status_loop up REPOS []\<rparr>"

subsection \<open>renderStats\<close>

text \<open>\<open>runs.total_count || 0\<close>: a missing or zero count shows as 0. A thrown error shows
  as a dash.\<close>

definition transcripts_text :: "upstream \<Rightarrow> string" where
  "transcripts_text up =
     (case githubFetch (transcript_runs up 100) of
        Inr runs \<Rightarrow>
          show_nat (case total_count runs of Some n \<Rightarrow> if n \<noteq> 0 then n else 0 | None \<Rightarrow> 0)
      | Inl e \<Rightarrow> ''-'')"

fun dirs_loop :: "upstream \<Rightarrow> entry list \<Rightarrow> nat \<Rightarrow> nat" where
  "dirs_loop up [] artifactCount = artifactCount"
| "dirs_loop up (dir # rest) artifactCount =
     (case githubFetch (library_dir up (entry_name dir)) of
        Inr files \<Rightarrow>
          dirs_loop up rest
            (artifactCount + length (filter (\<lambda>f. endsWith (entry_name f) ''.md'') files))
      | Inl e \<Rightarrow> dirs_loop up rest artifactCount)"

definition artifacts_text :: "upstream \<Rightarrow> string" where
  "artifacts_text up =
     (case githubFetch (library_contents up) of
        Inr contents \<Rightarrow>
          (let artifactDirs =
                 filter (\<lambda>c. entry_type c = ''dir'' \<and> \<not> startsWith (entry_name c) ''.'') contents
           in show_nat (dirs_loop up artifactDirs 0))
      | Inl e \<Rightarrow> ''-'')"

definition projects_text :: "upstream \<Rightarrow> string" where
  "projects_text up =
     (case githubFetch (user_repos up False) of
        Inr repos \<Rightarrow>
          (let labRepos = filter (\<lambda>r. startsWith (repo_name r) ''Lab.'') repos
           in show_nat (length labRepos))
      | Inl e \<Rightarrow> ''-'')"

definition renderStats :: "upstream \<Rightarrow> page \<Rightarrow> page" where
  "renderStats up pg =
     pg\<lparr>stat_transcripts := transcripts_text up,
        stat_artifacts := artifacts_text up,
        stat_projects := projects_text up\<rparr>"

subsection \<open>buildJobTree\<close>

text \<open>The two conditional chains computed for a job, and the one computed for a step.
  A tree node stands for the markup fragment appended to \<open>html\<close>: a root carries the icon,
  the status class and the job name, a child the icon and the step name.\<close>

definition icon :: "'a status_record_scheme \<Rightarrow> string" where
  "icon job =
     (if conclusion job = Some ''success'' then ''&#x2705;''
      else if conclusion job = Some ''failure'' then ''&#x274C;''
      else if status job = Some ''in_progress'' then ''&#x1F504;''
      else ''&#x23F3;'')"

definition statusClass :: "'a status_record_scheme \<Rightarrow> string" where
  "statusClass job =
     (if conclusion job = Some ''success'' then ''success''
      else if conclusion job = Some ''failure'' then ''failure''
      else if status job = Some ''in_progress'' then ''running''
      else ''pending'')"

definition stepIcon :: "'a status_record_scheme \<Rightarrow> string" where
  "stepIcon step =
     (if conclusion step = Some ''success'' then ''&#x2705;''
      else if conclusion step = Some ''failure'' then ''&#x274C;''
      else if status step = Some ''in_progress'' then ''&#x1F504;''
      else ''&#x23F3;'')"

definition boilerplate :: "(string \<Rightarrow> string) \<Rightarrow> string \<Rightarrow> bool" where
  "boilerplate toLowerCase step_name' =
     (includes_str (toLowerCase step_name') ''checkout'' \<or>
      includes_str (toLowerCase step_name') ''setup python'' \<or>
      includes_str (toLowerCase step_name') ''install'')"

fun steps_loop :: "(string \<Rightarrow> string) \<Rightarrow> step list \<Rightarrow> tree_node list \<Rightarrow> tree_node list" where
  "steps_loop toLowerCase [] html = html"
| "steps_loop toLowerCase (s # rest) html =
     (if boilerplate toLowerCase (step_name s) then steps_loop toLowerCase rest html
      else steps_loop toLowerCase rest (html @ [Child (stepIcon s) (step_name s)]))"

fun jobs_loop :: "(string \<Rightarrow> string) \<Rightarrow> job list \<Rightarrow> tree_node list \<Rightarrow> tree_node list" where
  "jobs_loop toLowerCase [] html = html"
| "jobs_loop toLowerCase (j # rest) html =
     (let html1 = html @ [Root (icon j) (statusClass j) (job_name j)];
          html2 = (case steps j of
                     Some ss \<Rightarrow> if length ss > 0 then steps_loop toLowerCase ss html1
                                else html1
                   | None \<Rightarrow> html1)
      in jobs_loop toLowerCase rest html2)"

definition buildJobTree :: "(string \<Rightarrow> string) \<Rightarrow> job list option \<Rightarrow> tree_html" where
  "buildJobTree toLowerCase jobs =
     (case jobs of
        None \<Rightarrow> NoJobDetails
      | Some js \<Rightarrow>
          if length js = 0 then NoJobDetails else Tree (jobs_loop toLowerCase js []))"

subsection \<open>renderTranscriptJobs\<close>

text \<open>The status class of a run is computed by the same conditional chain as the status
  class of a job, so \<open>statusClass\<close> stands for both. \<open>a || b\<close> on strings takes \<open>b\<close> when
  \<open>a\<close> is null, absent or empty.\<close>

fun runs_loop :: "(string \<Rightarrow> string) \<Rightarrow> int \<Rightarrow> upstream \<Rightarrow> run list \<Rightarrow> job_card list \<Rightarrow> job_card list" where
  "runs_loop toLowerCase now up [] html = html"
| "runs_loop toLowerCase now up (r # rest) html =
     (let treeHtml = (case githubFetch (run_jobs up (run_id r)) of
                        Inr jobs \<Rightarrow> buildJobTree toLowerCase jobs
                      | Inl e \<Rightarrow> CouldNotLoad)
      in runs_loop toLowerCase now up rest
           (html @
            [\<lparr>card_title = (case display_title r of
                              Some t \<Rightarrow> if t \<noteq> [] then t else run_name r
                            | None \<Rightarrow> run_name r),
              card_time = timeAgo now (created_at r),
              card_statusClass = statusClass r,
              card_statusText = (case conclusion r of
                                   Some c \<Rightarrow> if c \<noteq> [] then Some c else status r
                                 | None \<Rightarrow> status r),
              card_tree = treeHtml,
              card_url = run_html_url r\<rparr>]))"

definition renderTranscriptJobs :: "(string \<Rightarrow> string) \<Rightarrow> int \<Rightarrow> upstream \<Rightarrow> page \<Rightarrow> page" where
  "renderTranscriptJobs toLowerCase now up pg =
     (case githubFetch (transcript_runs up 5) of
        Inr runs \<Rightarrow>
          (case workflow_runs runs of
             None \<Rightarrow> pg\<lparr>transcript_jobs := NoTranscriptJobs\<rparr>
           | Some rs \<Rightarrow>
               if length rs = 0 then pg\<lparr>transcript_jobs := NoTranscriptJobs\<rparr>
               else pg\<lparr>transcript_jobs := Jobs (runs_loop toLowerCase now up rs [])\<rparr>)
      | Inl e \<Rightarrow> pg\<lparr>transcript_jobs := JobsError e\<rparr>)"

subsection \<open>renderLibraryArtifacts\<close>

text \<open>The admission test of a changed file, and the two values derived from its path.\<close>

definition admits :: "string set \<Rightarrow> string \<Rightarrow> bool" where
  "admits seenFiles fname =
     (endsWith fname ''.md'' \<and> \<not> includes_str fname ''README'' \<and> fname \<notin> seenFiles)"

definition artifact_category :: "string \<Rightarrow> string" where
  "artifact_category fname =
     (let parts = split fname CHR ''/'' in if length parts > 1 then parts ! 0 else ''unknown'')"

definition artifact_name :: "string \<Rightarrow> string" where
  "artifact_name fname =
     (let parts = split fname CHR ''/'' in replace (parts ! (length parts - 1)) ''.md'' [])"

text \<open>The inner loop over the files of one commit and the outer loop over the commits;
  the state is the pair of \<open>artifacts\<close> and \<open>seenFiles\<close>. Both loops stop once five
  artifacts are collected. A commit whose details cannot be fetched adds nothing.\<close>

fun files_loop :: "int \<Rightarrow> changed_file list \<Rightarrow> artifact list \<times> string set \<Rightarrow> artifact list \<times> string set" where
  "files_loop d [] st = st"
| "files_loop d (f # rest) (artifacts, seenFiles) =
     (if admits seenFiles (filename f) then
        (let seenFiles' = insert (filename f) seenFiles;
             artifacts' = artifacts @
               [\<lparr>name = artifact_name (filename f), category = artifact_category (filename f),
                 path = filename f, date = d\<rparr>]
         in if length artifacts' \<ge> 5 then (artifacts', seenFiles')
            else files_loop d rest (artifacts', seenFiles'))
      else files_loop d rest (artifacts, seenFiles))"

fun commits_loop :: "upstream \<Rightarrow> commit list \<Rightarrow> artifact list \<times> string set \<Rightarrow> artifact list \<times> string set" where
  "commits_loop up [] st = st"
| "commits_loop up (c # rest) (artifacts, seenFiles) =
     (if length artifacts \<ge> 5 then (artifacts, seenFiles)
      else (case githubFetch (commit_details up (sha c)) of
              Inr files \<Rightarrow>
                commits_loop up rest
                  (files_loop (author_date c) (case files of Some fs \<Rightarrow> fs | None \<Rightarrow> [])
                     (artifacts, seenFiles))
            | Inl e \<Rightarrow> commits_loop up rest (artifacts, seenFiles)))"

definition collect_artifacts :: "upstream \<Rightarrow> commit list \<Rightarrow> artifact list" where
  "collect_artifacts up commits = fst (commits_loop up commits ([], {}))"

definition renderLibraryArtifacts :: "int \<Rightarrow> upstream \<Rightarrow> page \<Rightarrow> page" where
  "renderLibraryArtifacts now up pg =
     (case githubFetch (library_commits up) of
        Inr commits \<Rightarrow>
          if length commits = 0 then pg\<lparr>library_artifacts := NoArtifacts\<rparr>
          else (let artifacts = collect_artifacts up commits in
                if length artifacts = 0 then pg\<lparr>library_artifacts := NoArtifacts\<rparr>
                else pg\<lparr>library_artifacts :=
                       Artifacts (map (\<lambda>a. \<lparr>shown_name = name a,
                                             shown_age = timeAgo now (date a),
                                             shown_category = category a\<rparr>) artifacts)\<rparr>)
      | Inl e \<Rightarrow> pg\<lparr>library_artifacts := ArtifactsError e\<rparr>)"

subsection \<open>renderLabProjects\<close>

fun projects_loop :: "upstream \<Rightarrow> repo list \<Rightarrow> project list \<Rightarrow> project list" where
  "projects_loop up [] projects = projects"
| "projects_loop up (r # rest) projects =
     (let isChord = includes_str (repo_name r) ''.Chord'';
          isNote = includes_str (repo_name r) ''.Note'';
          projectType' = (if isChord then ''chord'' else if isNote then ''note'' else ''unknown'');
          hasOpenIssues = (case githubFetch (repo_issues up (repo_name r)) of
                             Inr issues \<Rightarrow> length issues > 0
                           | Inl e \<Rightarrow> False)
      in projects_loop up rest
           (projects @
            [\<lparr>project_name = replace (repo_name r) ''Lab.'' [],
              fullName = repo_name r,
              projectType = projectType',
              project_status = (if hasOpenIssues then ''waiting'' else ''active''),
              url = repo_html_url r,
              updated = updated_at r\<rparr>]))"

definition labRepos :: "repo list \<Rightarrow> repo list" where
  "labRepos repos = take 5 (filter (\<lambda>r. startsWith (repo_name r) ''Lab.'') repos)"

definition renderLabProjects :: "int \<Rightarrow> upstream \<Rightarrow> page \<Rightarrow> page" where
  "renderLabProjects now up pg =
     (case githubFetch (user_repos up True) of
        Inr repos \<Rightarrow>
          if length (labRepos repos) = 0 then pg\<lparr>lab_projects := NoLabProjects\<rparr>
          else (let projects = projects_loop up (labRepos repos) [] in
                pg\<lparr>lab_projects :=
                  Projects (map (\<lambda>p. \<lparr>link_url = url p, link_name = project_name p,
                                       link_age = timeAgo now (updated p),
                                       type_badge = projectType p,
                                       status_badge = project_status p,
                                       status_label = (if project_status p = ''waiting''
                                                       then ''awaiting'' else ''active'')\<rparr>)
                              projects)\<rparr>)
      | Inl e \<Rightarrow> pg\<lparr>lab_projects := ProjectsError e\<rparr>)"

subsection \<open>refreshAll\<close>

text \<open>One aggregation pass. The five renderings write to different parts of the page, so
  the pass is their composition; every clock reading of the pass is \<open>now\<close>, and the marker
  keeps the date whose locale string is shown.\<close>

definition refreshAll :: "(string \<Rightarrow> string) \<Rightarrow> int \<Rightarrow> upstream \<Rightarrow> page \<Rightarrow> page" where
  "refreshAll toLowerCase now up pg =
     (let pg0 = pg\<lparr>last_updated := Refreshing\<rparr>;
          pg1 = renderSystemStatus up pg0;
          pg2 = renderStats up pg1;
          pg3 = renderTranscriptJobs toLowerCase now up pg2;
          pg4 = renderLibraryArtifacts now up pg3;
          pg5 = renderLabProjects now up pg4
      in pg5\<lparr>last_updated := LocaleString now\<rparr>)"

section \<open>Specification-level notions\<close>

text \<open>The decision order of the run classification as the specification words it, on
  the two fields alone.\<close>

definition StatusClassifier :: "(string option \<times> string option) option \<Rightarrow> string \<times> string" where
  "StatusClassifier rec =
     (case rec of
        None \<Rightarrow> (''success'', ''Operational'')
      | Some (s, c) \<Rightarrow>
          if s \<in> {Some ''in_progress'', Some ''queued''} then (''loading'', ''Running'')
          else if c = Some ''failure'' then (''error'', ''Failed'')
          else if c = Some ''cancelled'' then (''warning'', ''Cancelled'')
          else (''success'', ''Operational''))"

text \<open>The board entry of one repository, read off the response to its latest-run
  query: unavailable when there is no response or the status is not a 2xx one;
  otherwise the classification of the first run of the payload, and operational when the
  payload has no run.\<close>

definition unavailable :: "string \<Rightarrow> status_item" where
  "unavailable repoName =
     \<lparr>item_name = repoName, item_status = ''error'', statusText = ''Unavailable''\<rparr>"

definition board_entry :: "upstream \<Rightarrow> string \<Rightarrow> status_item" where
  "board_entry up repoName =
     (case latest_runs up repoName of
        NoResponse \<Rightarrow> unavailable repoName
      | Response st runs \<Rightarrow>
          if st < 200 \<or> 299 < st then unavailable repoName
          else (case runs of
                  [] \<Rightarrow> \<lparr>item_name = repoName, item_status = ''success'',
                          statusText = ''Operational''\<rparr>
                | r # rest \<Rightarrow>
                    \<lparr>item_name = repoName,
                     item_status = fst (StatusClassifier (Some (status r, conclusion r))),
                     statusText = snd (StatusClassifier (Some (status r, conclusion r)))\<rparr>))"

text \<open>A name contains a marker case-insensitively when its lower-casing has the marker
  as a contiguous part. The child nodes of a job are its steps that contain none of the
  three boilerplate markers, in their order.\<close>

definition contains_ci :: "(string \<Rightarrow> string) \<Rightarrow> string \<Rightarrow> string \<Rightarrow> bool" where
  "contains_ci toLowerCase s marker = (\<exists>us vs. toLowerCase s = us @ marker @ vs)"

definition step_nodes :: "(string \<Rightarrow> string) \<Rightarrow> job \<Rightarrow> tree_node list" where
  "step_nodes toLowerCase j =
     map (\<lambda>s. Child (stepIcon s) (step_name s))
       (filter (\<lambda>s. \<not> (contains_ci toLowerCase (step_name s) ''checkout'' \<or>
                        contains_ci toLowerCase (step_name s) ''setup python'' \<or>
                        contains_ci toLowerCase (step_name s) ''install''))
          (case steps j of Some ss \<Rightarrow> ss | None \<Rightarrow> []))"

text \<open>Lower-casing of the letters A to Z, character by character: what \<open>toLowerCase\<close> does
  on a string of ASCII characters.\<close>

definition lower_char :: "char \<Rightarrow> char" where
  "lower_char c =
     (let n = of_char c :: nat in if 65 \<le> n \<and> n \<le> 90 then char_of (n + 32) else c)"

definition ascii_lower :: "string \<Rightarrow> string" where
  "ascii_lower s = map lower_char s"

text \<open>The changed files of a commit window in the order the scan visits them, newest
  commit first, each with the date of its commit; a commit whose details cannot be fetched
  contributes none. \<open>map_of\<close> on this list finds the first occurrence of a path. A path is
  eligible when it ends with the extension and does not contain the upper-case marker.\<close>

definition changed_files :: "upstream \<Rightarrow> commit list \<Rightarrow> (string \<times> int) list" where
  "changed_files up commits =
     concat (map (\<lambda>c. case githubFetch (commit_details up (sha c)) of
                         Inr files \<Rightarrow> map (\<lambda>f. (filename f, author_date c))
                                        (case files of Some fs \<Rightarrow> fs | None \<Rightarrow> [])
                       | Inl e \<Rightarrow> []) commits)"

definition eligible :: "string \<Rightarrow> bool" where
  "eligible p = (endsWith p ''.md'' \<and> \<not> (\<exists>us vs. p = us @ ''README'' @ vs))"

definition mk_artifact :: "string \<Rightarrow> int \<Rightarrow> artifact" where
  "mk_artifact p d =
     \<lparr>name = artifact_name p, category = artifact_category p, path = p, date = d\<rparr>"

text \<open>The two nested loops of the scan as one loop over the changed files of the
  window; \<open>commits_loop_stream\<close> below shows that they compute the same.\<close>

fun stream_loop :: "(string \<times> int) list \<Rightarrow> artifact list \<times> string set \<Rightarrow> artifact list \<times> string set" where
  "stream_loop [] st = st"
| "stream_loop ((p, d) # rest) (artifacts, seenFiles) =
     (if length artifacts \<ge> 5 then (artifacts, seenFiles)
      else if admits seenFiles p
           then stream_loop rest (artifacts @ [mk_artifact p d], insert p seenFiles)
           else stream_loop rest (artifacts, seenFiles))"

text \<open>An upstream on which every request fails; examples override single endpoints.\<close>

definition offline :: upstream where
  "offline =
     \<lparr>latest_runs = (\<lambda>_. NoResponse), transcript_runs = (\<lambda>_. NoResponse),
      run_jobs = (\<lambda>_. NoResponse), library_contents = NoResponse,
      library_dir = (\<lambda>_. NoResponse), library_commits = NoResponse,
      commit_details = (\<lambda>_. NoResponse), user_repos = (\<lambda>_. NoResponse),
      repo_issues = (\<lambda>_. NoResponse)\<rparr>"

text \<open>The step-level status classes read as run-level kinds: failure is the run-level
  error and running the run-level loading; pending has no run-level counterpart.\<close>

definition run_kind_of :: "string \<Rightarrow> string option" where
  "run_kind_of cls =
     (if cls = ''success'' then Some ''success''
      else if cls = ''failure'' then Some ''error''
      else if cls = ''running'' then Some ''loading''
      else None)"

text \<open>The final path segment with the extension stripped from its end, as the
  specification words the name of an artifact.\<close>

definition stripped_name :: "string \<Rightarrow> string" where
  "stripped_name fname =
     (let seg = last (split fname CHR ''/'')
      in if endsWith seg ''.md'' then take (length seg - length ''.md'') seg else seg)"

text \<open>A page with everything that is read off the clock blanked: the relative-age label
  of every job card, artifact and sub-project, and the last-updated marker. All other
  content is kept.\<close>

definition jobs_without_ages :: "jobs_section \<Rightarrow> jobs_section" where
  "jobs_without_ages sec =
     (case sec of
        NoTranscriptJobs \<Rightarrow> NoTranscriptJobs
      | Jobs cards \<Rightarrow> Jobs (map (\<lambda>c. c\<lparr>card_time := []\<rparr>) cards)
      | JobsError e \<Rightarrow> JobsError e)"

definition artifacts_without_ages :: "artifacts_section \<Rightarrow> artifacts_section" where
  "artifacts_without_ages sec =
     (case sec of
        NoArtifacts \<Rightarrow> NoArtifacts
      | Artifacts items \<Rightarrow> Artifacts (map (\<lambda>i. i\<lparr>shown_age := []\<rparr>) items)
      | ArtifactsError e \<Rightarrow> ArtifactsError e)"

definition projects_without_ages :: "projects_section \<Rightarrow> projects_section" where
  "projects_without_ages sec =
     (case sec of
        NoLabProjects \<Rightarrow> NoLabProjects
      | Projects items \<Rightarrow> Projects (map (\<lambda>i. i\<lparr>link_age := []\<rparr>) items)
      | ProjectsError e \<Rightarrow> ProjectsError e)"

definition without_clock :: "page \<Rightarrow> page" where
  "without_clock pg =
     pg\<lparr>transcript_jobs := jobs_without_ages (transcript_jobs pg),
        library_artifacts := artifacts_without_ages (library_artifacts pg),
        lab_projects := projects_without_ages (lab_projects pg),
        last_updated := Refreshing\<rparr>"

text \<open>An empty page, the state before the first pass.\<close>

definition blank :: page where
  "blank = \<lparr>system_status = [], stat_transcripts = [], stat_artifacts = [],
            stat_projects = [], transcript_jobs = NoTranscriptJobs,
            library_artifacts = NoArtifacts, lab_projects = NoLabProjects,
            last_updated = Refreshing\<rparr>"

section \<open>Lemmas about the string operations\<close>

lemma startsWith_iff: "startsWith s p \<longleftrightarrow> (\<exists>vs. s = p @ vs)"
proof
  assume "startsWith s p"
  then have "s = p @ drop (length p) s"
    unfolding startsWith_def by (metis append_take_drop_id)
  then show "\<exists>vs. s = p @ vs" ..
next
  assume "\<exists>vs. s = p @ vs"
  then show "startsWith s p" by (auto simp: startsWith_def)
qed

lemma includes_str_iff: "includes_str s sub \<longleftrightarrow> (\<exists>us vs. s = us @ sub @ vs)"
proof (induction s)
  case Nil
  show ?case by auto
next
  case (Cons c cs)
  show ?case
  proof
    assume "includes_str (c # cs) sub"
    then consider "startsWith (c # cs) sub" | "includes_str cs sub" by auto
    then show "\<exists>us vs. c # cs = us @ sub @ vs"
    proof cases
      case 1
      then obtain vs where "c # cs = sub @ vs" by (auto simp: startsWith_iff)
      then have "c # cs = [] @ sub @ vs" by simp
      then show ?thesis by blast
    next
      case 2
      then obtain us vs where "cs = us @ sub @ vs" using Cons.IH by auto
      then have "c # cs = (c # us) @ sub @ vs" by simp
      then show ?thesis by blast
    qed
  next
    assume "\<exists>us vs. c # cs = us @ sub @ vs"
    then obtain us vs where eq: "c # cs = us @ sub @ vs" by auto
    show "includes_str (c # cs) sub"
    proof (cases us)
      case Nil
      with eq have "startsWith (c # cs) sub" by (auto simp: startsWith_iff)
      then show ?thesis by simp
    next
      case (Cons u us')
      with eq have "cs = us' @ sub @ vs" by simp
      then have "includes_str cs sub" using Cons.IH by blast
      then show ?thesis by simp
    qed
  qed
qed

lemma includes_ascii_lower_iff:
  "includes_str (ascii_lower s) marker \<longleftrightarrow> (\<exists>us t vs. s = us @ t @ vs \<and> ascii_lower t = marker)"
proof
  assume "includes_str (ascii_lower s) marker"
  then obtain us vs where eq: "map lower_char s = us @ marker @ vs"
    by (auto simp: includes_str_iff ascii_lower_def)
  have "\<exists>us' r. s = us' @ r \<and> map lower_char r = marker @ vs"
    using eq [unfolded map_eq_append_conv] by metis
  then obtain us' r where s: "s = us' @ r" and r: "map lower_char r = marker @ vs"
    by blast
  have "\<exists>t vs'. r = t @ vs' \<and> map lower_char t = marker"
    using r [unfolded map_eq_append_conv] by metis
  then obtain t vs' where "r = t @ vs'" and "map lower_char t = marker"
    by blast
  with s show "\<exists>us t vs. s = us @ t @ vs \<and> ascii_lower t = marker"
    unfolding ascii_lower_def by blast
next
  assume "\<exists>us t vs. s = us @ t @ vs \<and> ascii_lower t = marker"
  then obtain us t vs where "s = us @ t @ vs" and "ascii_lower t = marker"
    by blast
  then have "ascii_lower s = ascii_lower us @ marker @ ascii_lower vs"
    by (simp add: ascii_lower_def)
  then show "includes_str (ascii_lower s) marker"
    unfolding includes_str_iff by blast
qed

section \<open>The run classification\<close>

text \<open>
  C1. The classification of the latest run in renderSystemStatus is defined on every raw
  record, an absent one included, and follows the decision order of the specification,
  first match first: no record gives success/Operational; status in_progress or queued
  gives loading/Running; otherwise conclusion failure gives error/Failed; otherwise
  conclusion cancelled gives warning/Cancelled; otherwise success/Operational. The second
  part lists the sixteen combinations of status in (null, in_progress, queued, completed)
  and conclusion in (null, success, failure, cancelled), status-major.
\<close>

theorem runStatus_decision_order:
  "runStatus latestRun = StatusClassifier (map_option (\<lambda>r. (status r, conclusion r)) latestRun)
   \<and> map (\<lambda>(s, c). runStatus (Some \<lparr>status = s, conclusion = c\<rparr>))
         (List.product [None, Some ''in_progress'', Some ''queued'', Some ''completed'']
                       [None, Some ''success'', Some ''failure'', Some ''cancelled''])
       = [(''success'', ''Operational''), (''success'', ''Operational''),
          (''error'', ''Failed''), (''warning'', ''Cancelled''),
          (''loading'', ''Running''), (''loading'', ''Running''),
          (''loading'', ''Running''), (''loading'', ''Running''),
          (''loading'', ''Running''), (''loading'', ''Running''),
          (''loading'', ''Running''), (''loading'', ''Running''),
          (''success'', ''Operational''), (''success'', ''Operational''),
          (''error'', ''Failed''), (''warning'', ''Cancelled'')]"
proof
  show "runStatus latestRun = StatusClassifier (map_option (\<lambda>r. (status r, conclusion r)) latestRun)"
    by (cases latestRun) (simp_all add: runStatus_def StatusClassifier_def)
next
  show "map (\<lambda>(s, c). runStatus (Some \<lparr>status = s, conclusion = c\<rparr>))
         (List.product [None, Some ''in_progress'', Some ''queued'', Some ''completed'']
                       [None, Some ''success'', Some ''failure'', Some ''cancelled''])
       = [(''success'', ''Operational''), (''success'', ''Operational''),
          (''error'', ''Failed''), (''warning'', ''Cancelled''),
          (''loading'', ''Running''), (''loading'', ''Running''),
          (''loading'', ''Running''), (''loading'', ''Running''),
          (''loading'', ''Running''), (''loading'', ''Running''),
          (''loading'', ''Running''), (''loading'', ''Running''),
          (''success'', ''Operational''), (''success'', ''Operational''),
          (''error'', ''Failed''), (''warning'', ''Cancelled'')]"
    by (simp add: runStatus_def)
qed

section \<open>The status board\<close>

lemma runStatus_StatusClassifier:
  "runStatus (Some r) = StatusClassifier (Some (status r, conclusion r))"
  by (simp add: runStatus_def StatusClassifier_def)

lemma status_loop_map:
  "status_loop up repos statuses = statuses @ map (\<lambda>kv. board_entry up (snd kv)) repos"
proof (induction repos arbitrary: statuses)
  case Nil
  show ?case by simp
next
  case (Cons kv repos)
  obtain key repoName where kv: "kv = (key, repoName)" by (cases kv)
  have entry: "status_loop up ((key, repoName) # repos) statuses =
      status_loop up repos (statuses @ [board_entry up repoName])"
  proof (cases "latest_runs up repoName")
    case NoResponse
    then show ?thesis
      by (simp add: githubFetch_def board_entry_def unavailable_def)
  next
    case (Response st runs)
    show ?thesis
    proof (cases "st < 200 \<or> 299 < st")
      case True
      with Response show ?thesis
        by (auto simp: githubFetch_def board_entry_def unavailable_def)
    next
      case False
      show ?thesis
      proof (cases runs)
        case Nil
        with Response False show ?thesis
          by (simp add: githubFetch_def board_entry_def first_run_def runStatus_def)
      next
        case (Cons r rest)
        with Response False show ?thesis
          by (simp add: githubFetch_def board_entry_def first_run_def Let_def
                runStatus_StatusClassifier split: prod.splits)
      qed
    qed
  qed
  show ?case unfolding kv entry by (simp add: Cons.IH)
qed

text \<open>
  C2. Whatever the outcomes of the per-repository fetches of the latest run, the board
  that renderSystemStatus writes has exactly one entry per monitored repository, in the
  order of the static repository list. The entry of a repository whose fetch fails (no
  response, or a status that is not a 2xx one, such as 404, 500 or 503) is
  error/Unavailable; the entry of a repository whose fetch succeeds carries the
  classification of the first run of its payload, and success/Operational when the
  payload has no run. Each entry depends on the response for its own repository only: no
  entry is dropped and a failure does not touch the other entries. In particular, when
  the fetch for Legato.Library fails while Legato.Conduct reports a failed run and
  Legato.Listen reports no run, the board is Failed, Unavailable, Operational.
\<close>

theorem status_board_fault_isolation:
  "system_status (renderSystemStatus up pg) =
     [board_entry up ''Legato.Conduct'', board_entry up ''Legato.Library'',
      board_entry up ''Legato.Listen'']
   \<and> map item_name (system_status (renderSystemStatus up pg)) =
     [''Legato.Conduct'', ''Legato.Library'', ''Legato.Listen'']
   \<and> board_entry (up\<lparr>latest_runs := (latest_runs up)(repoName := NoResponse)\<rparr>) repoName =
     \<lparr>item_name = repoName, item_status = ''error'', statusText = ''Unavailable''\<rparr>
   \<and> board_entry (up\<lparr>latest_runs := (latest_runs up)(repoName := Response 404 runs)\<rparr>) repoName =
     \<lparr>item_name = repoName, item_status = ''error'', statusText = ''Unavailable''\<rparr>
   \<and> board_entry (up\<lparr>latest_runs := (latest_runs up)(repoName := Response 500 runs)\<rparr>) repoName =
     \<lparr>item_name = repoName, item_status = ''error'', statusText = ''Unavailable''\<rparr>
   \<and> board_entry (up\<lparr>latest_runs := (latest_runs up)(repoName := Response 200 runs)\<rparr>) repoName =
     \<lparr>item_name = repoName, item_status = fst (runStatus (first_run runs)),
      statusText = snd (runStatus (first_run runs))\<rparr>
   \<and> board_entry (up\<lparr>latest_runs := (latest_runs up)(repoName := Response 200 (r # rest))\<rparr>) repoName =
     \<lparr>item_name = repoName, item_status = fst (runStatus (Some r)),
      statusText = snd (runStatus (Some r))\<rparr>
   \<and> board_entry (up\<lparr>latest_runs := (latest_runs up)(repoName := Response 200 [])\<rparr>) repoName =
     \<lparr>item_name = repoName, item_status = ''success'', statusText = ''Operational''\<rparr>
   \<and> system_status (renderSystemStatus
        (up\<lparr>latest_runs := (latest_runs up)(''Legato.Library'' := Response 503 runs)\<rparr>) pg) =
     [board_entry up ''Legato.Conduct'',
      \<lparr>item_name = ''Legato.Library'', item_status = ''error'', statusText = ''Unavailable''\<rparr>,
      board_entry up ''Legato.Listen'']
   \<and> system_status (renderSystemStatus
        (up\<lparr>latest_runs := (\<lambda>n.
              if n = ''Legato.Library'' then NoResponse
              else if n = ''Legato.Conduct''
              then Response 200 [\<lparr>status = Some ''completed'', conclusion = Some ''failure'',
                      run_id = 7, run_name = ''ci'', display_title = None, created_at = 0,
                      run_html_url = ''h''\<rparr>]
              else Response 200 [])\<rparr>) pg) =
     [\<lparr>item_name = ''Legato.Conduct'', item_status = ''error'', statusText = ''Failed''\<rparr>,
      \<lparr>item_name = ''Legato.Library'', item_status = ''error'', statusText = ''Unavailable''\<rparr>,
      \<lparr>item_name = ''Legato.Listen'', item_status = ''success'', statusText = ''Operational''\<rparr>]"
proof -
  have board: "system_status (renderSystemStatus up' pg) =
     [board_entry up' ''Legato.Conduct'', board_entry up' ''Legato.Library'',
      board_entry up' ''Legato.Listen'']" for up'
    by (simp add: renderSystemStatus_def status_loop_map REPOS_def)
  have names: "item_name (board_entry up r) = r" for r
    by (simp add: board_entry_def unavailable_def split: response.splits list.splits)
  have none: "board_entry (up\<lparr>latest_runs := (latest_runs up)(repoName := NoResponse)\<rparr>) repoName =
     \<lparr>item_name = repoName, item_status = ''error'', statusText = ''Unavailable''\<rparr>"
    by (simp add: board_entry_def unavailable_def)
  have missing: "board_entry (up\<lparr>latest_runs := (latest_runs up)(repoName := Response 404 runs)\<rparr>) repoName =
     \<lparr>item_name = repoName, item_status = ''error'', statusText = ''Unavailable''\<rparr>"
    by (simp add: board_entry_def unavailable_def)
  have server: "board_entry (up\<lparr>latest_runs := (latest_runs up)(repoName := Response 500 runs)\<rparr>) repoName =
     \<lparr>item_name = repoName, item_status = ''error'', statusText = ''Unavailable''\<rparr>"
    by (simp add: board_entry_def unavailable_def)
  have succeeding: "board_entry (up\<lparr>latest_runs := (latest_runs up)(repoName := Response 200 runs)\<rparr>) repoName =
     \<lparr>item_name = repoName, item_status = fst (runStatus (first_run runs)),
      statusText = snd (runStatus (first_run runs))\<rparr>"
    by (cases runs)
       (simp_all add: board_entry_def first_run_def runStatus_StatusClassifier,
        simp add: runStatus_def)
  have latest: "board_entry (up\<lparr>latest_runs := (latest_runs up)(repoName := Response 200 (r # rest))\<rparr>) repoName =
     \<lparr>item_name = repoName, item_status = fst (runStatus (Some r)),
      statusText = snd (runStatus (Some r))\<rparr>"
    by (simp add: board_entry_def runStatus_StatusClassifier)
  have empty: "board_entry (up\<lparr>latest_runs := (latest_runs up)(repoName := Response 200 [])\<rparr>) repoName =
     \<lparr>item_name = repoName, item_status = ''success'', statusText = ''Operational''\<rparr>"
    by (simp add: board_entry_def)
  have isolated: "system_status (renderSystemStatus
        (up\<lparr>latest_runs := (latest_runs up)(''Legato.Library'' := Response 503 runs)\<rparr>) pg) =
     [board_entry up ''Legato.Conduct'',
      \<lparr>item_name = ''Legato.Library'', item_status = ''error'', statusText = ''Unavailable''\<rparr>,
      board_entry up ''Legato.Listen'']"
    unfolding board by (simp add: board_entry_def unavailable_def)
  have scenario: "system_status (renderSystemStatus
        (up\<lparr>latest_runs := (\<lambda>n.
              if n = ''Legato.Library'' then NoResponse
              else if n = ''Legato.Conduct''
              then Response 200 [\<lparr>status = Some ''completed'', conclusion = Some ''failure'',
                      run_id = 7, run_name = ''ci'', display_title = None, created_at = 0,
                      run_html_url = ''h''\<rparr>]
              else Response 200 [])\<rparr>) pg) =
     [\<lparr>item_name = ''Legato.Conduct'', item_status = ''error'', statusText = ''Failed''\<rparr>,
      \<lparr>item_name = ''Legato.Library'', item_status = ''error'', statusText = ''Unavailable''\<rparr>,
      \<lparr>item_name = ''Legato.Listen'', item_status = ''success'', statusText = ''Operational''\<rparr>]"
    by (simp add: renderSystemStatus_def REPOS_def githubFetch_def first_run_def
          runStatus_def)
  have names3: "map item_name (system_status (renderSystemStatus up pg)) =
     [''Legato.Conduct'', ''Legato.Library'', ''Legato.Listen'']"
    unfolding board by (simp add: names)
  note parts = board [of up] names3 none missing server succeeding latest empty isolated scenario
  show ?thesis
    by (intro conjI) (rule parts)+
qed

section \<open>The job tree\<close>

lemma boilerplate_iff:
  "boilerplate lc n \<longleftrightarrow>
     contains_ci lc n ''checkout'' \<or> contains_ci lc n ''setup python'' \<or>
     contains_ci lc n ''install''"
  by (simp add: boilerplate_def includes_str_iff contains_ci_def)

lemma steps_loop_filter:
  "steps_loop lc ss html =
     html @ map (\<lambda>s. Child (stepIcon s) (step_name s))
              (filter (\<lambda>s. \<not> boilerplate lc (step_name s)) ss)"
  by (induction ss arbitrary: html) simp_all

lemma jobs_loop_concat:
  "jobs_loop lc js html =
     html @ concat (map (\<lambda>j. Root (icon j) (statusClass j) (job_name j) # step_nodes lc j) js)"
proof (induction js arbitrary: html)
  case Nil
  show ?case by simp
next
  case (Cons j js)
  show ?case
    by (cases "steps j")
       (simp_all add: Cons.IH Let_def steps_loop_filter step_nodes_def boilerplate_iff)
qed

text \<open>
  C5. For every ordered job list with ordered step lists, and whatever lower-casing the
  platform's toLowerCase performs, buildJobTree emits, job after job in the input order,
  the root node of the job followed by one child node for each of its steps whose
  lower-cased name contains none of checkout, setup python and install, in the input order
  of the steps; the steps whose lower-cased name contains one of the three are exactly the
  omitted ones, and nothing is sorted. An absent or empty job list gives the no-details
  marker. On a name that toLowerCase lower-cases letter by letter, as it does every ASCII
  name, a step is omitted exactly when a contiguous part of the name equals one of the
  three markers up to the case of its letters. In particular, the steps Checkout code,
  Build, Run tests give exactly two child nodes, Build then Run tests, and steps named
  pip INSTALL deps and Setup Python 3.11 are omitted.
\<close>

theorem buildJobTree_omits_boilerplate:
  "(boilerplate toLowerCase n \<longleftrightarrow>
      contains_ci toLowerCase n ''checkout'' \<or> contains_ci toLowerCase n ''setup python'' \<or>
      contains_ci toLowerCase n ''install'')
   \<and> buildJobTree toLowerCase (Some (j # js)) =
       Tree (concat (map (\<lambda>j. Root (icon j) (statusClass j) (job_name j) #
                               step_nodes toLowerCase j) (j # js)))
   \<and> buildJobTree toLowerCase None = NoJobDetails
   \<and> buildJobTree toLowerCase (Some []) = NoJobDetails
   \<and> (toLowerCase n = ascii_lower n \<longrightarrow>
        (boilerplate toLowerCase n \<longleftrightarrow>
           (\<exists>us t vs. n = us @ t @ vs \<and>
              (ascii_lower t = ''checkout'' \<or> ascii_lower t = ''setup python'' \<or>
               ascii_lower t = ''install''))))
   \<and> (toLowerCase ''Checkout code'' = ''checkout code'' \<and> toLowerCase ''Build'' = ''build'' \<and>
       toLowerCase ''Run tests'' = ''run tests'' \<longrightarrow>
       buildJobTree toLowerCase
         (Some [\<lparr>status = Some ''completed'', conclusion = Some ''failure'',
              job_name = ''build'',
              steps = Some [\<lparr>status = Some ''completed'', conclusion = Some ''success'',
                               step_name = ''Checkout code''\<rparr>,
                            \<lparr>status = Some ''completed'', conclusion = Some ''success'',
                               step_name = ''Build''\<rparr>,
                            \<lparr>status = Some ''completed'', conclusion = Some ''failure'',
                               step_name = ''Run tests''\<rparr>]\<rparr>])
       = Tree [Root ''&#x274C;'' ''failure'' ''build'',
               Child ''&#x2705;'' ''Build'', Child ''&#x274C;'' ''Run tests''])
   \<and> (toLowerCase ''pip INSTALL deps'' = ''pip install deps'' \<longrightarrow>
        boilerplate toLowerCase ''pip INSTALL deps'')
   \<and> (toLowerCase ''Setup Python 3.11'' = ''setup python 3.11'' \<longrightarrow>
        boilerplate toLowerCase ''Setup Python 3.11'')"
proof -
  have tree: "buildJobTree toLowerCase (Some (j # js)) =
       Tree (concat (map (\<lambda>j. Root (icon j) (statusClass j) (job_name j) #
                               step_nodes toLowerCase j) (j # js)))"
    unfolding buildJobTree_def jobs_loop_concat by simp
  have none: "buildJobTree toLowerCase None = NoJobDetails"
    and empty: "buildJobTree toLowerCase (Some []) = NoJobDetails"
    by (simp_all add: buildJobTree_def)
  have ascii: "toLowerCase n = ascii_lower n \<longrightarrow>
        (boilerplate toLowerCase n \<longleftrightarrow>
           (\<exists>us t vs. n = us @ t @ vs \<and>
              (ascii_lower t = ''checkout'' \<or> ascii_lower t = ''setup python'' \<or>
               ascii_lower t = ''install'')))"
  proof
    assume lc: "toLowerCase n = ascii_lower n"
    have "boilerplate toLowerCase n \<longleftrightarrow>
        (\<exists>us t vs. n = us @ t @ vs \<and> ascii_lower t = ''checkout'') \<or>
        (\<exists>us t vs. n = us @ t @ vs \<and> ascii_lower t = ''setup python'') \<or>
        (\<exists>us t vs. n = us @ t @ vs \<and> ascii_lower t = ''install'')"
      unfolding boilerplate_def lc includes_ascii_lower_iff ..
    then show "boilerplate toLowerCase n \<longleftrightarrow>
           (\<exists>us t vs. n = us @ t @ vs \<and>
              (ascii_lower t = ''checkout'' \<or> ascii_lower t = ''setup python'' \<or>
               ascii_lower t = ''install''))"
      by blast
  qed
  have example: "toLowerCase ''Checkout code'' = ''checkout code'' \<and>
       toLowerCase ''Build'' = ''build'' \<and> toLowerCase ''Run tests'' = ''run tests'' \<longrightarrow>
       buildJobTree toLowerCase
         (Some [\<lparr>status = Some ''completed'', conclusion = Some ''failure'',
              job_name = ''build'',
              steps = Some [\<lparr>status = Some ''completed'', conclusion = Some ''success'',
                               step_name = ''Checkout code''\<rparr>,
                            \<lparr>status = Some ''completed'', conclusion = Some ''success'',
                               step_name = ''Build''\<rparr>,
                            \<lparr>status = Some ''completed'', conclusion = Some ''failure'',
                               step_name = ''Run tests''\<rparr>]\<rparr>])
       = Tree [Root ''&#x274C;'' ''failure'' ''build'',
               Child ''&#x2705;'' ''Build'', Child ''&#x274C;'' ''Run tests'']"
    by (simp add: buildJobTree_def boilerplate_def icon_def statusClass_def stepIcon_def
          startsWith_def Let_def)
  have pip: "toLowerCase ''pip INSTALL deps'' = ''pip install deps'' \<longrightarrow>
        boilerplate toLowerCase ''pip INSTALL deps''"
    by (simp add: boilerplate_def startsWith_def)
  have python: "toLowerCase ''Setup Python 3.11'' = ''setup python 3.11'' \<longrightarrow>
        boilerplate toLowerCase ''Setup Python 3.11''"
    by (simp add: boilerplate_def startsWith_def)
  note parts = boilerplate_iff [of toLowerCase n] tree none empty ascii example pip python
  show ?thesis
    by (intro conjI) (rule parts)+
qed

theorem buildJobTree_omits_boilerplate_witness:
  "ascii_lower ''Checkout code'' = ''checkout code'' \<and> ascii_lower ''Build'' = ''build''
   \<and> ascii_lower ''Run tests'' = ''run tests''
   \<and> ascii_lower ''pip INSTALL deps'' = ''pip install deps''
   \<and> ascii_lower ''Setup Python 3.11'' = ''setup python 3.11''
   \<and> buildJobTree ascii_lower
         (Some [\<lparr>status = Some ''completed'', conclusion = Some ''failure'',
              job_name = ''build'',
              steps = Some [\<lparr>status = Some ''completed'', conclusion = Some ''success'',
                               step_name = ''Checkout code''\<rparr>,
                            \<lparr>status = Some ''completed'', conclusion = Some ''success'',
                               step_name = ''Build''\<rparr>,
                            \<lparr>status = Some ''completed'', conclusion = Some ''failure'',
                               step_name = ''Run tests''\<rparr>]\<rparr>])
       = Tree [Root ''&#x274C;'' ''failure'' ''build'',
               Child ''&#x2705;'' ''Build'', Child ''&#x274C;'' ''Run tests'']
   \<and> boilerplate ascii_lower ''pip INSTALL deps''
   \<and> boilerplate ascii_lower ''Setup Python 3.11''
   \<and> (\<exists>us t vs. ''pip INSTALL deps'' = us @ t @ vs \<and>
          (ascii_lower t = ''checkout'' \<or> ascii_lower t = ''setup python'' \<or>
           ascii_lower t = ''install''))"
proof -
  have lower: "ascii_lower ''Checkout code'' = ''checkout code''"
    "ascii_lower ''Build'' = ''build''" "ascii_lower ''Run tests'' = ''run tests''"
    "ascii_lower ''pip INSTALL deps'' = ''pip install deps''"
    "ascii_lower ''Setup Python 3.11'' = ''setup python 3.11''"
    by code_simp+
  note all = buildJobTree_omits_boilerplate [of ascii_lower "''pip INSTALL deps''"]
  note rest4 = all [THEN conjunct2, THEN conjunct2, THEN conjunct2, THEN conjunct2]
  note ascii = rest4 [THEN conjunct1]
  note example = rest4 [THEN conjunct2, THEN conjunct1]
  note pip = rest4 [THEN conjunct2, THEN conjunct2, THEN conjunct1]
  note python = rest4 [THEN conjunct2, THEN conjunct2, THEN conjunct2]
  have tree: "buildJobTree ascii_lower
         (Some [\<lparr>status = Some ''completed'', conclusion = Some ''failure'',
              job_name = ''build'',
              steps = Some [\<lparr>status = Some ''completed'', conclusion = Some ''success'',
                               step_name = ''Checkout code''\<rparr>,
                            \<lparr>status = Some ''completed'', conclusion = Some ''success'',
                               step_name = ''Build''\<rparr>,
                            \<lparr>status = Some ''completed'', conclusion = Some ''failure'',
                               step_name = ''Run tests''\<rparr>]\<rparr>])
       = Tree [Root ''&#x274C;'' ''failure'' ''build'',
               Child ''&#x2705;'' ''Build'', Child ''&#x274C;'' ''Run tests'']"
    using example lower by simp
  have omitted1: "boilerplate ascii_lower ''pip INSTALL deps''"
    using pip lower by simp
  have omitted2: "boilerplate ascii_lower ''Setup Python 3.11''"
    using python lower by simp
  have part: "\<exists>us t vs. ''pip INSTALL deps'' = us @ t @ vs \<and>
          (ascii_lower t = ''checkout'' \<or> ascii_lower t = ''setup python'' \<or>
           ascii_lower t = ''install'')"
    using ascii omitted1 by blast
  note parts = lower tree omitted1 omitted2 part
  show ?thesis
    by (intro conjI) (rule parts)+
qed

section \<open>The artifact scan\<close>

lemma admits_iff: "admits seen p \<longleftrightarrow> eligible p \<and> p \<notin> seen"
  by (auto simp: admits_def eligible_def includes_str_iff)

lemma stream_loop_full:
  "length (fst st) \<ge> 5 \<Longrightarrow> stream_loop xs st = st"
  by (cases xs; cases st) auto

lemma stream_loop_append:
  "stream_loop (xs @ ys) st = stream_loop ys (stream_loop xs st)"
proof (induction xs st rule: stream_loop.induct)
  case (1 st)
  show ?case by simp
next
  case (2 p d rest artifacts seenFiles)
  show ?case
  proof (cases "length artifacts \<ge> 5")
    case True
    then show ?thesis by (simp add: stream_loop_full)
  next
    case False
    then show ?thesis using 2 by simp
  qed
qed

lemma files_loop_stream:
  "length artifacts < 5 \<Longrightarrow>
   files_loop d fs (artifacts, seenFiles) =
     stream_loop (map (\<lambda>f. (filename f, d)) fs) (artifacts, seenFiles)"
proof (induction fs arbitrary: artifacts seenFiles)
  case Nil
  show ?case by simp
next
  case (Cons f fs)
  show ?case
  proof (cases "admits seenFiles (filename f)")
    case False
    then show ?thesis using Cons by simp
  next
    case True
    show ?thesis
    proof (cases "length artifacts = 4")
      case True
      with \<open>admits seenFiles (filename f)\<close> show ?thesis
        by (simp add: Let_def mk_artifact_def stream_loop_full)
    next
      case False
      with Cons.prems have "length (artifacts @ [mk_artifact (filename f) d]) < 5" by simp
      from Cons.IH [OF this] True Cons.prems False show ?thesis
        by (simp add: Let_def mk_artifact_def)
    qed
  qed
qed

lemma commits_loop_stream:
  "commits_loop up cs st = stream_loop (changed_files up cs) st"
proof (induction cs arbitrary: st)
  case Nil
  show ?case by (simp add: changed_files_def)
next
  case (Cons c cs)
  obtain artifacts seenFiles where st: "st = (artifacts, seenFiles)" by (cases st)
  have split: "changed_files up (c # cs) =
      (case githubFetch (commit_details up (sha c)) of
         Inr files \<Rightarrow> map (\<lambda>f. (filename f, author_date c))
                        (case files of Some fs \<Rightarrow> fs | None \<Rightarrow> [])
       | Inl e \<Rightarrow> []) @ changed_files up cs"
    by (simp add: changed_files_def)
  show ?case
  proof (cases "length artifacts \<ge> 5")
    case True
    then show ?thesis by (simp add: st stream_loop_full)
  next
    case False
    then have lt: "length artifacts < 5" by simp
    show ?thesis
    proof (cases "githubFetch (commit_details up (sha c))")
      case (Inl e)
      then show ?thesis using False by (simp add: st split Cons.IH)
    next
      case (Inr files)
      then show ?thesis using False
        by (simp add: st split Cons.IH stream_loop_append files_loop_stream [OF lt])
    qed
  qed
qed

lemma stream_loop_distinct:
  "stream_loop xs (arts, seen) = (arts', seen') \<Longrightarrow>
   distinct (map path arts) \<Longrightarrow> seen = path ` set arts \<Longrightarrow>
   distinct (map path arts') \<and> seen' = path ` set arts'"
proof (induction xs "(arts, seen)" arbitrary: arts seen rule: stream_loop.induct)
  case 1
  then show ?case by auto
next
  case (2 p d rest artifacts seenFiles)
  show ?case
  proof (cases "length artifacts \<ge> 5")
    case True
    with 2 show ?thesis by auto
  next
    case False
    show ?thesis
    proof (cases "admits seenFiles p")
      case True
      have "p \<notin> path ` set artifacts" using True "2.prems"(3) by (simp add: admits_iff)
      then have "distinct (map path (artifacts @ [mk_artifact p d]))"
        using "2.prems"(2) by (auto simp: mk_artifact_def)
      moreover have "insert p seenFiles = path ` set (artifacts @ [mk_artifact p d])"
        using "2.prems"(3) by (auto simp: mk_artifact_def)
      moreover have "stream_loop rest (artifacts @ [mk_artifact p d], insert p seenFiles) = (arts', seen')"
        using "2.prems"(1) False True by simp
      ultimately show ?thesis using "2.hyps"(1) [OF _ True] False by simp
    next
      case no: False
      then have "stream_loop rest (artifacts, seenFiles) = (arts', seen')"
        using "2.prems"(1) False by simp
      then show ?thesis using "2.hyps"(2) [OF _ no] False "2.prems" by simp
    qed
  qed
qed

lemma stream_loop_first:
  "stream_loop xs (arts, seen) = (arts', seen') \<Longrightarrow> a \<in> set arts' \<Longrightarrow>
   a \<in> set arts \<or>
   (path a \<notin> seen \<and> eligible (path a) \<and> map_of xs (path a) = Some (date a))"
proof (induction xs "(arts, seen)" arbitrary: arts seen rule: stream_loop.induct)
  case 1
  then show ?case by simp
next
  case (2 p d rest artifacts seenFiles)
  show ?case
  proof (cases "length artifacts \<ge> 5")
    case True
    with 2 show ?thesis by simp
  next
    case False
    show ?thesis
    proof (cases "admits seenFiles p")
      case True
      have "stream_loop rest (artifacts @ [mk_artifact p d], insert p seenFiles) = (arts', seen')"
        using "2.prems"(1) False True by simp
      from "2.hyps"(1) [OF _ True this "2.prems"(2)] False
      have "a \<in> set (artifacts @ [mk_artifact p d]) \<or>
            (path a \<notin> insert p seenFiles \<and> eligible (path a) \<and>
             map_of rest (path a) = Some (date a))" by simp
      then show ?thesis using True
        by (auto simp: mk_artifact_def admits_iff)
    next
      case no: False
      then have "stream_loop rest (artifacts, seenFiles) = (arts', seen')"
        using "2.prems"(1) False by simp
      from "2.hyps"(2) [OF _ no this "2.prems"(2)] False
      have "a \<in> set artifacts \<or>
            (path a \<notin> seenFiles \<and> eligible (path a) \<and> map_of rest (path a) = Some (date a))"
        by simp
      then show ?thesis using no by (auto simp: admits_iff)
    qed
  qed
qed

lemma stream_loop_mono:
  "stream_loop xs (arts, seen) = (arts', seen') \<Longrightarrow>
   length arts \<le> length arts' \<and> seen \<subseteq> seen'"
proof (induction xs "(arts, seen)" arbitrary: arts seen rule: stream_loop.induct)
  case 1
  then show ?case by simp
next
  case (2 p d rest artifacts seenFiles)
  then show ?case by (fastforce split: if_splits)
qed

lemma stream_loop_complete:
  "stream_loop xs (arts, seen) = (arts', seen') \<Longrightarrow> length arts' < 5 \<Longrightarrow>
   p \<in> fst ` set xs \<Longrightarrow> eligible p \<Longrightarrow> p \<in> seen'"
proof (induction xs "(arts, seen)" arbitrary: arts seen rule: stream_loop.induct)
  case 1
  then show ?case by simp
next
  case (2 q d rest artifacts seenFiles)
  have small: "\<not> length artifacts \<ge> 5"
    using stream_loop_mono [OF "2.prems"(1)] "2.prems"(2) by simp
  show ?case
  proof (cases "admits seenFiles q")
    case True
    have run: "stream_loop rest (artifacts @ [mk_artifact q d], insert q seenFiles) = (arts', seen')"
      using "2.prems"(1) small True by simp
    show ?thesis
    proof (cases "p = q")
      case True
      then show ?thesis using stream_loop_mono [OF run] by auto
    next
      case False
      then have "p \<in> fst ` set rest" using "2.prems"(3) by auto
      from "2.hyps"(1) [OF small True run "2.prems"(2) this "2.prems"(4)] show ?thesis .
    qed
  next
    case no: False
    have run: "stream_loop rest (artifacts, seenFiles) = (arts', seen')"
      using "2.prems"(1) small no by simp
    show ?thesis
    proof (cases "p = q")
      case True
      then have "p \<in> seenFiles" using no "2.prems"(4) by (simp add: admits_iff)
      then show ?thesis using stream_loop_mono [OF run] by auto
    next
      case False
      then have "p \<in> fst ` set rest" using "2.prems"(3) by auto
      from "2.hyps"(2) [OF small no run "2.prems"(2) this "2.prems"(4)] show ?thesis .
    qed
  qed
qed

lemma collect_artifacts_stream:
  "collect_artifacts up commits = fst (stream_loop (changed_files up commits) ([], {}))"
  by (simp add: collect_artifacts_def commits_loop_stream)

lemma distinct_map_filter_le1:
  "distinct (map f xs) \<Longrightarrow> length (filter (\<lambda>a. f a = p) xs) \<le> 1"
proof (induction xs)
  case Nil
  show ?case by simp
next
  case (Cons x xs)
  show ?case
  proof (cases "f x = p")
    case True
    with Cons.prems have "filter (\<lambda>a. f a = p) xs = []"
      by (auto simp: filter_empty_conv image_iff)
    with True show ?thesis by simp
  next
    case False
    with Cons show ?thesis by simp
  qed
qed

text \<open>
  C3. For every commit window, whatever the fetches of the commit details return, the
  artifact list of one pass of renderLibraryArtifacts has at most one artifact for any file
  path, also when the path is a changed file of several commits of the window; the
  artifact kept for a path carries the date of the first commit, in the order of the
  walk (newest first), whose fetched details list the path.
\<close>

theorem artifacts_unique_first_wins:
  "length (filter (\<lambda>a. path a = p) (collect_artifacts up commits)) \<le> 1 \<and>
   distinct (map path (collect_artifacts up commits)) \<and>
   (\<forall>a \<in> set (collect_artifacts up commits).
      map_of (changed_files up commits) (path a) = Some (date a))"
proof -
  obtain arts seen where run: "stream_loop (changed_files up commits) ([], {}) = (arts, seen)"
    by (cases "stream_loop (changed_files up commits) ([], {})")
  then have arts: "collect_artifacts up commits = arts"
    by (simp add: collect_artifacts_stream)
  have "distinct (map path arts)"
    using stream_loop_distinct [OF run] by simp
  moreover have "map_of (changed_files up commits) (path a) = Some (date a)"
    if "a \<in> set arts" for a
    using stream_loop_first [OF run that] by simp
  moreover have "length (filter (\<lambda>a. path a = p) arts) \<le> 1"
    using \<open>distinct (map path arts)\<close> by (rule distinct_map_filter_le1)
  ultimately show ?thesis unfolding arts by blast
qed

theorem artifacts_unique_first_wins_witness:
  "collect_artifacts
     (offline\<lparr>commit_details := (\<lambda>s. Response 200 (Some [\<lparr>filename = ''notes/a.md''\<rparr>]))\<rparr>)
     [\<lparr>sha = ''c3'', author_date = 300\<rparr>, \<lparr>sha = ''c2'', author_date = 200\<rparr>,
      \<lparr>sha = ''c1'', author_date = 100\<rparr>]
   = [\<lparr>name = ''a'', category = ''notes'', path = ''notes/a.md'', date = 300\<rparr>]
   \<and> map_of (changed_files
        (offline\<lparr>commit_details := (\<lambda>s. Response 200 (Some [\<lparr>filename = ''notes/a.md''\<rparr>]))\<rparr>)
        [\<lparr>sha = ''c3'', author_date = 300\<rparr>, \<lparr>sha = ''c2'', author_date = 200\<rparr>,
         \<lparr>sha = ''c1'', author_date = 100\<rparr>]) ''notes/a.md'' = Some 300"
proof -
  let ?up = "offline\<lparr>commit_details := (\<lambda>s. Response 200 (Some [\<lparr>filename = ''notes/a.md''\<rparr>]))\<rparr>"
  let ?cs = "[\<lparr>sha = ''c3'', author_date = 300\<rparr>, \<lparr>sha = ''c2'', author_date = 200\<rparr>,
      \<lparr>sha = ''c1'', author_date = 100\<rparr>]"
  have c: "collect_artifacts ?up ?cs
     = [\<lparr>name = ''a'', category = ''notes'', path = ''notes/a.md'', date = 300\<rparr>]"
    by (simp add: collect_artifacts_def offline_def githubFetch_def admits_def endsWith_def
          startsWith_def artifact_name_def artifact_category_def Let_def)
  show ?thesis
    using artifacts_unique_first_wins [of "''notes/a.md''" ?up ?cs] c by simp
qed

text \<open>
  C10. The documentation-index exclusion of renderLibraryArtifacts is a case-sensitive
  substring test for README: a changed file whose path ends with .md passes the
  admission test iff its path does not contain the upper-case README anywhere and was not
  seen before; every collected artifact has such a path; and as long as the pass collects
  fewer than five artifacts, a changed file ending with .md is missing from the artifact
  list iff its path contains README. The lower-case notes/readme.md is admitted.
\<close>

theorem readme_filter_case_sensitive:
  "(endsWith p ''.md'' \<longrightarrow>
      (admits seenFiles p \<longleftrightarrow> \<not> (\<exists>us vs. p = us @ ''README'' @ vs) \<and> p \<notin> seenFiles))
   \<and> (\<forall>a \<in> set (collect_artifacts up commits).
         endsWith (path a) ''.md'' \<and> \<not> (\<exists>us vs. path a = us @ ''README'' @ vs))
   \<and> (length (collect_artifacts up commits) < 5 \<longrightarrow>
        (\<forall>q \<in> fst ` set (changed_files up commits). endsWith q ''.md'' \<longrightarrow>
           (q \<notin> path ` set (collect_artifacts up commits) \<longleftrightarrow>
            (\<exists>us vs. q = us @ ''README'' @ vs))))"
proof -
  obtain arts seen where run: "stream_loop (changed_files up commits) ([], {}) = (arts, seen)"
    by (cases "stream_loop (changed_files up commits) ([], {})")
  then have arts: "collect_artifacts up commits = arts"
    by (simp add: collect_artifacts_stream)
  have seen: "seen = path ` set arts"
    using stream_loop_distinct [OF run] by simp
  have sound: "eligible (path a)" if "a \<in> set arts" for a
    using stream_loop_first [OF run that] by simp
  have complete: "q \<in> path ` set arts"
    if "length arts < 5" "q \<in> fst ` set (changed_files up commits)" "eligible q" for q
    using stream_loop_complete [OF run that] seen by simp
  have one: "endsWith p ''.md'' \<longrightarrow>
      (admits seenFiles p \<longleftrightarrow> \<not> (\<exists>us vs. p = us @ ''README'' @ vs) \<and> p \<notin> seenFiles)"
    by (auto simp: admits_def includes_str_iff)
  have two: "\<forall>a \<in> set arts.
         endsWith (path a) ''.md'' \<and> \<not> (\<exists>us vs. path a = us @ ''README'' @ vs)"
    using sound by (simp add: eligible_def)
  have three: "length arts < 5 \<longrightarrow>
        (\<forall>q \<in> fst ` set (changed_files up commits). endsWith q ''.md'' \<longrightarrow>
           (q \<notin> path ` set arts \<longleftrightarrow> (\<exists>us vs. q = us @ ''README'' @ vs)))"
  proof (intro impI ballI iffI)
    fix q
    assume "length arts < 5" "q \<in> fst ` set (changed_files up commits)" "endsWith q ''.md''"
       and "q \<notin> path ` set arts"
    then show "\<exists>us vs. q = us @ ''README'' @ vs"
      using complete [of q] by (auto simp: eligible_def)
  next
    fix q
    assume "\<exists>us vs. q = us @ ''README'' @ vs"
    then have "\<not> eligible q" by (simp add: eligible_def)
    then show "q \<notin> path ` set arts" using sound by auto
  qed
  show ?thesis
    unfolding arts using one two three by blast
qed

theorem readme_filter_case_sensitive_witness:
  "endsWith ''notes/readme.md'' ''.md''
   \<and> admits {} ''notes/readme.md''
   \<and> \<not> admits {} ''notes/README.md''
   \<and> collect_artifacts
        (offline\<lparr>commit_details := (\<lambda>s. Response 200
            (Some [\<lparr>filename = ''notes/readme.md''\<rparr>, \<lparr>filename = ''notes/README.md''\<rparr>]))\<rparr>)
        [\<lparr>sha = ''c1'', author_date = 100\<rparr>]
     = [\<lparr>name = ''readme'', category = ''notes'', path = ''notes/readme.md'', date = 100\<rparr>]
   \<and> (\<exists>us vs. ''notes/README.md'' = us @ ''README'' @ vs)"
proof -
  let ?up = "offline\<lparr>commit_details := (\<lambda>s. Response 200
            (Some [\<lparr>filename = ''notes/readme.md''\<rparr>, \<lparr>filename = ''notes/README.md''\<rparr>]))\<rparr>"
  let ?cs = "[\<lparr>sha = ''c1'', author_date = 100\<rparr>]"
  have e: "endsWith ''notes/readme.md'' ''.md''" "endsWith ''notes/README.md'' ''.md''"
    by (simp_all add: endsWith_def)
  have a: "admits {} ''notes/readme.md''" "\<not> admits {} ''notes/README.md''"
    by (simp_all add: admits_def endsWith_def startsWith_def)
  have c: "collect_artifacts ?up ?cs
     = [\<lparr>name = ''readme'', category = ''notes'', path = ''notes/readme.md'', date = 100\<rparr>]"
    by (simp add: collect_artifacts_def offline_def githubFetch_def admits_def endsWith_def
          startsWith_def artifact_name_def artifact_category_def Let_def)
  have f: "''notes/README.md'' \<in> fst ` set (changed_files ?up ?cs)"
    by (simp add: changed_files_def offline_def githubFetch_def)
  have "\<exists>us vs. ''notes/README.md'' = us @ ''README'' @ vs"
    using readme_filter_case_sensitive [of "''notes/README.md''" "{}" ?up ?cs] e a c f
    by simp
  with e a c show ?thesis by simp
qed

section \<open>Job-level and run-level classification\<close>

text \<open>
  C4, as stated, fails: the classification that buildJobTree applies to jobs and steps
  is not the run-level one. A queued record and a cancelled record are both pending at the
  job level but loading and warning at the run level, and a record in progress whose
  conclusion is failure is failure at the job level but loading at the run level.
\<close>

theorem job_classification_differs:
  "statusClass \<lparr>status = Some ''queued'', conclusion = None\<rparr> = ''pending''
   \<and> fst (runStatus (Some \<lparr>status = Some ''queued'', conclusion = None\<rparr>)) = ''loading''
   \<and> statusClass \<lparr>status = Some ''completed'', conclusion = Some ''cancelled''\<rparr> = ''pending''
   \<and> fst (runStatus (Some \<lparr>status = Some ''completed'', conclusion = Some ''cancelled''\<rparr>)) = ''warning''
   \<and> statusClass \<lparr>status = Some ''in_progress'', conclusion = Some ''failure''\<rparr> = ''failure''
   \<and> fst (runStatus (Some \<lparr>status = Some ''in_progress'', conclusion = Some ''failure''\<rparr>)) = ''loading''"
  by (simp add: statusClass_def runStatus_def)

text \<open>
  C4, amended. buildJobTree classifies a job or step record with a chain of its own:
  conclusion success gives success, otherwise conclusion failure gives failure, otherwise
  status in_progress gives running, otherwise pending; the icon of a job and the icon of a
  step follow the same chain. Reading failure as error and running as loading, the
  job-level class is the run-level kind of the same record exactly when the conclusion is
  success or failure while the status is neither in_progress nor queued, or the status is
  in_progress while the conclusion is neither success nor failure.
\<close>

theorem job_classification_chain:
  "statusClass r =
     (if conclusion r = Some ''success'' then ''success''
      else if conclusion r = Some ''failure'' then ''failure''
      else if status r = Some ''in_progress'' then ''running'' else ''pending'')
   \<and> icon r = (if statusClass r = ''success'' then ''&#x2705;''
               else if statusClass r = ''failure'' then ''&#x274C;''
               else if statusClass r = ''running'' then ''&#x1F504;'' else ''&#x23F3;'')
   \<and> stepIcon r = icon r
   \<and> (run_kind_of (statusClass r) = Some (fst (runStatus (Some r))) \<longleftrightarrow>
        (conclusion r \<in> {Some ''success'', Some ''failure''} \<and>
         status r \<notin> {Some ''in_progress'', Some ''queued''})
        \<or> (conclusion r \<notin> {Some ''success'', Some ''failure''} \<and>
            status r = Some ''in_progress''))"
  by (simp add: statusClass_def icon_def stepIcon_def runStatus_def run_kind_of_def)

section \<open>The transcript counter\<close>

lemma digit_not_dash: "d < 10 \<Longrightarrow> digit d \<noteq> CHR ''-''"
proof -
  assume "d < 10"
  then have "d \<in> {0, 1, 2, 3, 4, 5, 6, 7, 8, 9}" by auto
  then show ?thesis by (auto simp: digit_def)
qed

lemma show_nat_last: "show_nat n \<noteq> [] \<and> last (show_nat n) \<noteq> CHR ''-''"
proof (cases "n < 10")
  case True
  then show ?thesis by (simp add: digit_not_dash)
next
  case False
  then have "show_nat n = show_nat (n div 10) @ [digit (n mod 10)]" by simp
  moreover have "digit (n mod 10) \<noteq> CHR ''-''" by (rule digit_not_dash) simp
  ultimately show ?thesis by simp
qed

lemma show_nat_not_dash: "show_nat n \<noteq> ''-''"
  using show_nat_last [of n] by (metis last.simps)

text \<open>
  C6. In renderStats the transcript counter shows a dash exactly when the run-count query
  fails (no response, or a status outside 200..299) and the decimal count otherwise, which
  is never a dash: a successful query with total count zero and an empty run list shows 0,
  a query without response or with status 404 or 500 shows the dash.
\<close>

theorem transcript_count_zero_or_unavailable:
  "stat_transcripts (renderStats up pg) =
     (case githubFetch (transcript_runs up 100) of
        Inl e \<Rightarrow> ''-''
      | Inr runs \<Rightarrow> show_nat (case total_count runs of None \<Rightarrow> 0 | Some n \<Rightarrow> n))
   \<and> (stat_transcripts (renderStats up pg) = ''-'' \<longleftrightarrow> isl (githubFetch (transcript_runs up 100)))
   \<and> stat_transcripts (renderStats
        (up\<lparr>transcript_runs := (\<lambda>n. Response 200 \<lparr>total_count = Some 0, workflow_runs = Some []\<rparr>)\<rparr>) pg) = ''0''
   \<and> stat_transcripts (renderStats (up\<lparr>transcript_runs := (\<lambda>n. NoResponse)\<rparr>) pg) = ''-''
   \<and> stat_transcripts (renderStats (up\<lparr>transcript_runs := (\<lambda>n. Response 404 body)\<rparr>) pg) = ''-''
   \<and> stat_transcripts (renderStats (up\<lparr>transcript_runs := (\<lambda>n. Response 500 body)\<rparr>) pg) = ''-''"
proof -
  have "stat_transcripts (renderStats up pg) =
     (case githubFetch (transcript_runs up 100) of
        Inl e \<Rightarrow> ''-''
      | Inr runs \<Rightarrow> show_nat (case total_count runs of None \<Rightarrow> 0 | Some n \<Rightarrow> n))"
    by (simp add: renderStats_def transcripts_text_def del: show_nat.simps
          split: sum.splits option.splits)
  moreover have "stat_transcripts (renderStats up pg) = ''-'' \<longleftrightarrow> isl (githubFetch (transcript_runs up 100))"
    by (cases "githubFetch (transcript_runs up 100)")
       (simp_all add: renderStats_def transcripts_text_def show_nat_not_dash del: show_nat.simps)
  moreover have "stat_transcripts (renderStats
        (up\<lparr>transcript_runs := (\<lambda>n. Response 200 \<lparr>total_count = Some 0, workflow_runs = Some []\<rparr>)\<rparr>) pg) = ''0''"
    by (simp add: renderStats_def transcripts_text_def githubFetch_def digit_def)
  moreover have "stat_transcripts (renderStats (up\<lparr>transcript_runs := (\<lambda>n. NoResponse)\<rparr>) pg) = ''-''"
    by (simp add: renderStats_def transcripts_text_def githubFetch_def)
  moreover have "stat_transcripts (renderStats (up\<lparr>transcript_runs := (\<lambda>n. Response 404 body)\<rparr>) pg) = ''-''"
    by (simp add: renderStats_def transcripts_text_def githubFetch_def)
  moreover have "stat_transcripts (renderStats (up\<lparr>transcript_runs := (\<lambda>n. Response 500 body)\<rparr>) pg) = ''-''"
    by (simp add: renderStats_def transcripts_text_def githubFetch_def)
  ultimately show ?thesis by blast
qed

section \<open>The name of an artifact\<close>

text \<open>The category is the first path segment when the path has a slash and the literal
  unknown otherwise.\<close>

lemma split_nonempty: "split s sep \<noteq> []"
  by (induction s) (simp_all add: Let_def)

lemma split_hd: "hd (split s sep) = takeWhile (\<lambda>c. c \<noteq> sep) s"
  by (induction s) (simp_all add: Let_def)

lemma split_length: "length (split s sep) = Suc (length (filter (\<lambda>c. c = sep) s))"
proof (induction s)
  case Nil
  show ?case by simp
next
  case (Cons c cs)
  have "length (tl (split cs sep)) = length (filter (\<lambda>c. c = sep) cs)"
    using Cons.IH by simp
  then show ?case using Cons.IH by (simp add: Let_def)
qed

lemma artifact_category_first_segment:
  "artifact_category p =
     (if CHR ''/'' \<in> set p then takeWhile (\<lambda>c. c \<noteq> CHR ''/'') p else ''unknown'')"
proof -
  have "length (split p CHR ''/'') > 1 \<longleftrightarrow> CHR ''/'' \<in> set p"
    by (auto simp: split_length filter_empty_conv)
  moreover have "split p CHR ''/'' ! 0 = takeWhile (\<lambda>c. c \<noteq> CHR ''/'') p"
    using split_nonempty [of p "CHR ''/''"] split_hd [of p "CHR ''/''"]
    by (simp add: hd_conv_nth)
  ultimately show ?thesis by (simp add: artifact_category_def Let_def)
qed

text \<open>
  C7, at a failing input. The path concepts/guide.mdx.md is admitted; its final segment
  with the extension stripped from its end is guide.mdx, but the name that
  renderLibraryArtifacts derives is guidex.md, since replace removes the first occurrence
  of the extension in the segment, not the one at its end. The category is the first
  segment.
\<close>

theorem artifact_name_replaces_first_occurrence:
  "admits {} ''concepts/guide.mdx.md''
   \<and> artifact_name ''concepts/guide.mdx.md'' = ''guidex.md''
   \<and> stripped_name ''concepts/guide.mdx.md'' = ''guide.mdx''
   \<and> artifact_category ''concepts/guide.mdx.md'' = ''concepts''"
  by (simp add: admits_def artifact_name_def stripped_name_def artifact_category_def
        endsWith_def startsWith_def Let_def)

section \<open>Lab projects\<close>

text \<open>
  C8. For every repository list, the projects that the loop of renderLabProjects builds
  are, in order, one per repository: the type is chord when the name contains .Chord,
  note when it contains .Note, unknown otherwise; the status is waiting when the
  open-issues lookup succeeds with at least one issue and active when it succeeds with
  none or fails. In particular Lab.Chord.Widget is rendered as chord and waiting with an
  open issue, as active with none, and as active when the lookup gets no response or a
  status 503.
\<close>

theorem lab_project_classification:
  "map (\<lambda>p. (fullName p, projectType p, project_status p)) (projects_loop up repos []) =
     map (\<lambda>r. (repo_name r,
               if (\<exists>us vs. repo_name r = us @ ''.Chord'' @ vs) then ''chord''
               else if (\<exists>us vs. repo_name r = us @ ''.Note'' @ vs) then ''note''
               else ''unknown'',
               case githubFetch (repo_issues up (repo_name r)) of
                 Inr issues \<Rightarrow> if issues = [] then ''active'' else ''waiting''
               | Inl e \<Rightarrow> ''active'')) repos
   \<and> lab_projects (renderLabProjects now
        (up\<lparr>user_repos := (\<lambda>b. Response 200
               [\<lparr>repo_name = ''Lab.Chord.Widget'', repo_html_url = u, updated_at = t\<rparr>]),
            repo_issues := (\<lambda>n. Response 200 (i # more_issues))\<rparr>) pg)
     = Projects [\<lparr>link_url = u, link_name = ''Chord.Widget'', link_age = timeAgo now t,
                  type_badge = ''chord'', status_badge = ''waiting'',
                  status_label = ''awaiting''\<rparr>]
   \<and> lab_projects (renderLabProjects now
        (up\<lparr>user_repos := (\<lambda>b. Response 200
               [\<lparr>repo_name = ''Lab.Chord.Widget'', repo_html_url = u, updated_at = t\<rparr>]),
            repo_issues := (\<lambda>n. Response 200 [])\<rparr>) pg)
     = Projects [\<lparr>link_url = u, link_name = ''Chord.Widget'', link_age = timeAgo now t,
                  type_badge = ''chord'', status_badge = ''active'',
                  status_label = ''active''\<rparr>]
   \<and> lab_projects (renderLabProjects now
        (up\<lparr>user_repos := (\<lambda>b. Response 200
               [\<lparr>repo_name = ''Lab.Chord.Widget'', repo_html_url = u, updated_at = t\<rparr>]),
            repo_issues := (\<lambda>n. NoResponse)\<rparr>) pg)
     = Projects [\<lparr>link_url = u, link_name = ''Chord.Widget'', link_age = timeAgo now t,
                  type_badge = ''chord'', status_badge = ''active'',
                  status_label = ''active''\<rparr>]
   \<and> lab_projects (renderLabProjects now
        (up\<lparr>user_repos := (\<lambda>b. Response 200
               [\<lparr>repo_name = ''Lab.Chord.Widget'', repo_html_url = u, updated_at = t\<rparr>]),
            repo_issues := (\<lambda>n. Response 503 body)\<rparr>) pg)
     = Projects [\<lparr>link_url = u, link_name = ''Chord.Widget'', link_age = timeAgo now t,
                  type_badge = ''chord'', status_badge = ''active'',
                  status_label = ''active''\<rparr>]"
proof -
  have general: "map (\<lambda>p. (fullName p, projectType p, project_status p)) (projects_loop up repos acc) =
     map (\<lambda>p. (fullName p, projectType p, project_status p)) acc @
     map (\<lambda>r. (repo_name r,
               if (\<exists>us vs. repo_name r = us @ ''.Chord'' @ vs) then ''chord''
               else if (\<exists>us vs. repo_name r = us @ ''.Note'' @ vs) then ''note''
               else ''unknown'',
               case githubFetch (repo_issues up (repo_name r)) of
                 Inr issues \<Rightarrow> if issues = [] then ''active'' else ''waiting''
               | Inl e \<Rightarrow> ''active'')) repos" for acc
  proof (induction repos arbitrary: acc)
    case Nil
    show ?case by simp
  next
    case (Cons r repos)
    show ?case
      by (cases "githubFetch (repo_issues up (repo_name r))")
         (simp_all add: Cons.IH Let_def includes_str_iff)
  qed
  have lab: "labRepos [\<lparr>repo_name = ''Lab.Chord.Widget'', repo_html_url = u, updated_at = t\<rparr>]
      = [\<lparr>repo_name = ''Lab.Chord.Widget'', repo_html_url = u, updated_at = t\<rparr>]"
    by (simp add: labRepos_def startsWith_def)
  have chord: "includes_str ''Lab.Chord.Widget'' ''.Chord''"
    by (simp add: startsWith_def)
  have nm: "replace ''Lab.Chord.Widget'' ''Lab.'' [] = ''Chord.Widget''"
    by (simp add: startsWith_def)
  show ?thesis
    using general [of "[]"]
    by (simp add: renderLabProjects_def githubFetch_def lab chord nm Let_def
          del: includes_str.simps replace.simps)
qed

section \<open>Repeating the aggregation pass\<close>

text \<open>
  C9, as stated, fails: against the same upstream data, a pass at clock reading 30000 and
  a pass at clock reading 90000 render the age of the same sub-project as just now and as
  1m ago, so the two outputs differ.
\<close>

theorem refresh_depends_on_clock:
  "lab_projects (refreshAll ascii_lower 30000
      (offline\<lparr>user_repos := (\<lambda>b. Response 200
          [\<lparr>repo_name = ''Lab.Chord.Widget'', repo_html_url = ''u'', updated_at = 0\<rparr>])\<rparr>) blank)
     = Projects [\<lparr>link_url = ''u'', link_name = ''Chord.Widget'', link_age = ''just now'',
                  type_badge = ''chord'', status_badge = ''active'', status_label = ''active''\<rparr>]
   \<and> lab_projects (refreshAll ascii_lower 90000
      (offline\<lparr>user_repos := (\<lambda>b. Response 200
          [\<lparr>repo_name = ''Lab.Chord.Widget'', repo_html_url = ''u'', updated_at = 0\<rparr>])\<rparr>) blank)
     = Projects [\<lparr>link_url = ''u'', link_name = ''Chord.Widget'', link_age = ''1m ago'',
                  type_badge = ''chord'', status_badge = ''active'', status_label = ''active''\<rparr>]
   \<and> refreshAll ascii_lower 30000
      (offline\<lparr>user_repos := (\<lambda>b. Response 200
          [\<lparr>repo_name = ''Lab.Chord.Widget'', repo_html_url = ''u'', updated_at = 0\<rparr>])\<rparr>) blank
     \<noteq> refreshAll ascii_lower 90000
      (offline\<lparr>user_repos := (\<lambda>b. Response 200
          [\<lparr>repo_name = ''Lab.Chord.Widget'', repo_html_url = ''u'', updated_at = 0\<rparr>])\<rparr>) blank"
proof -
  let ?up = "offline\<lparr>user_repos := (\<lambda>b. Response 200
          [\<lparr>repo_name = ''Lab.Chord.Widget'', repo_html_url = ''u'', updated_at = 0\<rparr>])\<rparr>"
  have early: "lab_projects (refreshAll ascii_lower 30000 ?up blank)
     = Projects [\<lparr>link_url = ''u'', link_name = ''Chord.Widget'', link_age = ''just now'',
                  type_badge = ''chord'', status_badge = ''active'', status_label = ''active''\<rparr>]"
    by (simp add: refreshAll_def renderLabProjects_def renderLibraryArtifacts_def
        renderTranscriptJobs_def renderStats_def renderSystemStatus_def offline_def
        githubFetch_def labRepos_def startsWith_def timeAgo_def digit_def Let_def)
  have late: "lab_projects (refreshAll ascii_lower 90000 ?up blank)
     = Projects [\<lparr>link_url = ''u'', link_name = ''Chord.Widget'', link_age = ''1m ago'',
                  type_badge = ''chord'', status_badge = ''active'', status_label = ''active''\<rparr>]"
    by (simp add: refreshAll_def renderLabProjects_def renderLibraryArtifacts_def
        renderTranscriptJobs_def renderStats_def renderSystemStatus_def offline_def
        githubFetch_def labRepos_def startsWith_def timeAgo_def digit_def Let_def)
  have "lab_projects (refreshAll ascii_lower 30000 ?up blank)
      \<noteq> lab_projects (refreshAll ascii_lower 90000 ?up blank)"
    unfolding early late by simp
  then have "refreshAll ascii_lower 30000 ?up blank \<noteq> refreshAll ascii_lower 90000 ?up blank"
    by metis
  with early late show ?thesis by blast
qed

lemma renderTranscriptJobs_overwrites:
  "renderTranscriptJobs lc now up pg =
     pg\<lparr>transcript_jobs := transcript_jobs (renderTranscriptJobs lc now up pg')\<rparr>"
  by (simp add: renderTranscriptJobs_def split: sum.splits option.splits)

lemma renderLibraryArtifacts_overwrites:
  "renderLibraryArtifacts now up pg =
     pg\<lparr>library_artifacts := library_artifacts (renderLibraryArtifacts now up pg')\<rparr>"
  by (simp add: renderLibraryArtifacts_def Let_def split: sum.splits)

lemma renderLabProjects_overwrites:
  "renderLabProjects now up pg =
     pg\<lparr>lab_projects := lab_projects (renderLabProjects now up pg')\<rparr>"
  by (simp add: renderLabProjects_def Let_def split: sum.splits)

lemma refreshAll_overwrites:
  "refreshAll lc now up pg =
     \<lparr>system_status = status_loop up REPOS [],
      stat_transcripts = transcripts_text up,
      stat_artifacts = artifacts_text up,
      stat_projects = projects_text up,
      transcript_jobs = transcript_jobs (renderTranscriptJobs lc now up blank),
      library_artifacts = library_artifacts (renderLibraryArtifacts now up blank),
      lab_projects = lab_projects (renderLabProjects now up blank),
      last_updated = LocaleString now\<rparr>"
proof -
  have j: "renderTranscriptJobs lc now up pg =
      pg\<lparr>transcript_jobs := transcript_jobs (renderTranscriptJobs lc now up blank)\<rparr>" for pg
    by (rule renderTranscriptJobs_overwrites)
  have a: "renderLibraryArtifacts now up pg =
      pg\<lparr>library_artifacts := library_artifacts (renderLibraryArtifacts now up blank)\<rparr>" for pg
    by (rule renderLibraryArtifacts_overwrites)
  have p: "renderLabProjects now up pg =
      pg\<lparr>lab_projects := lab_projects (renderLabProjects now up blank)\<rparr>" for pg
    by (rule renderLabProjects_overwrites)
  show ?thesis
    unfolding refreshAll_def Let_def renderSystemStatus_def renderStats_def
    by (subst p, subst a, subst j, cases pg) simp
qed

text \<open>The cards of two passes over the same runs differ in their age labels only.\<close>

lemma runs_loop_ages:
  "map (\<lambda>c. c\<lparr>card_time := []\<rparr>) h1 = map (\<lambda>c. c\<lparr>card_time := []\<rparr>) h2 \<Longrightarrow>
   map (\<lambda>c. c\<lparr>card_time := []\<rparr>) (runs_loop lc now1 up rs h1) =
   map (\<lambda>c. c\<lparr>card_time := []\<rparr>) (runs_loop lc now2 up rs h2)"
proof (induction rs arbitrary: h1 h2)
  case Nil
  then show ?case by simp
next
  case (Cons r rs)
  show ?case
    unfolding runs_loop.simps Let_def
    by (rule Cons.IH) (simp add: Cons.prems)
qed

lemma jobs_section_ages:
  "jobs_without_ages (transcript_jobs (renderTranscriptJobs lc now1 up pg)) =
   jobs_without_ages (transcript_jobs (renderTranscriptJobs lc now2 up pg'))"
  using runs_loop_ages [of "[]" "[]" lc now1 up _ now2]
  by (simp add: renderTranscriptJobs_def jobs_without_ages_def
        split: sum.splits option.splits)

lemma artifacts_section_ages:
  "artifacts_without_ages (library_artifacts (renderLibraryArtifacts now1 up pg)) =
   artifacts_without_ages (library_artifacts (renderLibraryArtifacts now2 up pg'))"
  by (simp add: renderLibraryArtifacts_def artifacts_without_ages_def Let_def
        split: sum.splits)

lemma projects_section_ages:
  "projects_without_ages (lab_projects (renderLabProjects now1 up pg)) =
   projects_without_ages (lab_projects (renderLabProjects now2 up pg'))"
  by (simp add: renderLabProjects_def projects_without_ages_def Let_def
        split: sum.splits)

text \<open>
  C9, amended. For every fixed upstream data set, a full pass overwrites every section of
  the page: its output does not depend on what the page held before, so a second pass at
  the same clock reading reproduces the output of the first. Two passes at any two clock
  readings produce the same view-model apart from what is read off the clock: the status
  board and the three counters are identical, and the job, artifact and sub-project
  sections are identical in everything but their relative-age labels (titles, status
  classes and texts, job trees, links, names, categories and badges are the same); with
  the age labels and the last-updated marker blanked, the two pages are equal. Only the
  relative-age labels and the last-updated marker depend on the clock reading.
\<close>

theorem refresh_overwrites_every_section:
  "refreshAll toLowerCase now up pg = refreshAll toLowerCase now up pg'
   \<and> refreshAll toLowerCase now up (refreshAll toLowerCase now up pg) =
       refreshAll toLowerCase now up pg
   \<and> system_status (refreshAll toLowerCase now1 up pg) =
       system_status (refreshAll toLowerCase now2 up pg')
   \<and> stat_transcripts (refreshAll toLowerCase now1 up pg) =
       stat_transcripts (refreshAll toLowerCase now2 up pg')
   \<and> stat_artifacts (refreshAll toLowerCase now1 up pg) =
       stat_artifacts (refreshAll toLowerCase now2 up pg')
   \<and> stat_projects (refreshAll toLowerCase now1 up pg) =
       stat_projects (refreshAll toLowerCase now2 up pg')
   \<and> jobs_without_ages (transcript_jobs (refreshAll toLowerCase now1 up pg)) =
       jobs_without_ages (transcript_jobs (refreshAll toLowerCase now2 up pg'))
   \<and> artifacts_without_ages (library_artifacts (refreshAll toLowerCase now1 up pg)) =
       artifacts_without_ages (library_artifacts (refreshAll toLowerCase now2 up pg'))
   \<and> projects_without_ages (lab_projects (refreshAll toLowerCase now1 up pg)) =
       projects_without_ages (lab_projects (refreshAll toLowerCase now2 up pg'))
   \<and> without_clock (refreshAll toLowerCase now1 up pg) =
       without_clock (refreshAll toLowerCase now2 up pg')
   \<and> last_updated (refreshAll toLowerCase now up pg) = LocaleString now"
proof -
  have same: "refreshAll toLowerCase now up pg = refreshAll toLowerCase now up pg'"
    by (simp add: refreshAll_overwrites)
  have again: "refreshAll toLowerCase now up (refreshAll toLowerCase now up pg) =
       refreshAll toLowerCase now up pg"
    by (simp add: refreshAll_overwrites)
  have board: "system_status (refreshAll toLowerCase now1 up pg) =
       system_status (refreshAll toLowerCase now2 up pg')"
    and transcripts: "stat_transcripts (refreshAll toLowerCase now1 up pg) =
       stat_transcripts (refreshAll toLowerCase now2 up pg')"
    and artifacts: "stat_artifacts (refreshAll toLowerCase now1 up pg) =
       stat_artifacts (refreshAll toLowerCase now2 up pg')"
    and projects: "stat_projects (refreshAll toLowerCase now1 up pg) =
       stat_projects (refreshAll toLowerCase now2 up pg')"
    by (simp_all add: refreshAll_overwrites)
  have jobs: "jobs_without_ages (transcript_jobs (refreshAll toLowerCase now1 up pg)) =
       jobs_without_ages (transcript_jobs (refreshAll toLowerCase now2 up pg'))"
    by (simp add: refreshAll_overwrites jobs_section_ages [of toLowerCase now1 up blank now2 blank])
  have arts: "artifacts_without_ages (library_artifacts (refreshAll toLowerCase now1 up pg)) =
       artifacts_without_ages (library_artifacts (refreshAll toLowerCase now2 up pg'))"
    by (simp add: refreshAll_overwrites artifacts_section_ages [of now1 up blank now2 blank])
  have projs: "projects_without_ages (lab_projects (refreshAll toLowerCase now1 up pg)) =
       projects_without_ages (lab_projects (refreshAll toLowerCase now2 up pg'))"
    by (simp add: refreshAll_overwrites projects_section_ages [of now1 up blank now2 blank])
  have page: "without_clock (refreshAll toLowerCase now1 up pg) =
       without_clock (refreshAll toLowerCase now2 up pg')"
    using jobs arts projs
    by (simp add: without_clock_def refreshAll_overwrites)
  have mark: "last_updated (refreshAll toLowerCase now up pg) = LocaleString now"
    by (simp add: refreshAll_overwrites)
  note parts = same again board transcripts artifacts projects jobs arts projs page mark
  show ?thesis
    by (intro conjI) (rule parts)+
qed

end
